theory Spec2Isabelle
  imports Main
begin

section \<open>The cart store of src/context/CartContext.tsx\<close>

text \<open>
  The store is a React context provider holding \<open>cartItems: CartItem[]\<close>. Every mutation
  is a call \<open>setCartItems(prevItems => ...)\<close>; the model is the updater function itself,
  from the previous list of line items to the next one.

  A JavaScript \<open>number\<close> is modelled as an unbounded integer: quantities are counts and the
  store only adds, multiplies and compares them. \<open>NaN\<close>, infinities and rounding are outside
  the model.
\<close>

type_synonym number = int

subsection \<open>Data model\<close>

text \<open>
  Modelled from the spec: the declarations of \<open>Product\<close> and \<open>CartItem\<close> live in
  \<open>lib/types\<close>, which is not among the source files. The fields are the ones the spec's data
  model names and the product card reads (identifier, name, price, image references, category,
  stock flag); a \<open>CartItem\<close> is a \<open>Product\<close> with a \<open>quantity\<close>. The store itself reads only
  the identifier, the price and the quantity, and copies the rest.
\<close>

record Product =
  id' :: string
  name :: string
  price :: number
  images :: "string list"
  categoryName :: string
  inStock :: bool

record CartItem = Product +
  quantity :: number

subsection \<open>Mutations\<close>

text \<open>
  \<^verbatim>\<open>
  const addToCart = (product: Product, quantity: number = 1) => {
    setCartItems(prevItems => {
      const existingItem = prevItems.find(item => item.id === product.id);
      if (existingItem) {
        return prevItems.map(item =>
          item.id === product.id
            ? { ...item, quantity: Math.max(0, item.quantity + quantity) } : item);
      }
      const newCartItem: CartItem = { ...product, quantity: Math.max(1, quantity) };
      return [...prevItems, newCartItem];
    });
  };
  \<close>
\<close>

definition newCartItem :: "Product \<Rightarrow> number \<Rightarrow> CartItem" where
  "newCartItem product qty =
     \<lparr>id' = id' product, name = name product, price = price product,
      images = images product, categoryName = categoryName product,
      inStock = inStock product, quantity = max 1 qty\<rparr>"

definition addToCart :: "Product \<Rightarrow> number \<Rightarrow> CartItem list \<Rightarrow> CartItem list" where
  "addToCart product qty prevItems =
     (case find (\<lambda>item. id' item = id' product) prevItems of
        Some existingItem \<Rightarrow>
          map (\<lambda>item. if id' item = id' product
                       then item\<lparr>quantity := max 0 (quantity item + qty)\<rparr>
                       else item) prevItems
      | None \<Rightarrow> prevItems @ [newCartItem product qty])"

text \<open>The default argument: \<open>addToCart(product)\<close> is \<open>addToCart(product, 1)\<close>.\<close>

definition addToCart_default :: "Product \<Rightarrow> CartItem list \<Rightarrow> CartItem list" where
  "addToCart_default product prevItems = addToCart product 1 prevItems"

text \<open>
  \<^verbatim>\<open>
  const removeFromCart = (productId: string) => {
    setCartItems(prevItems => prevItems.filter(item => item.id !== productId));
  };
  \<close>
\<close>

definition removeFromCart :: "string \<Rightarrow> CartItem list \<Rightarrow> CartItem list" where
  "removeFromCart productId prevItems = filter (\<lambda>item. id' item \<noteq> productId) prevItems"

text \<open>
  \<^verbatim>\<open>
  const updateQuantity = (productId: string, quantity: number) => {
    if (quantity <= 0) { removeFromCart(productId); return; }
    setCartItems(prevItems =>
      prevItems.map(item => item.id === productId ? { ...item, quantity } : item));
  };
  \<close>
\<close>

definition updateQuantity :: "string \<Rightarrow> number \<Rightarrow> CartItem list \<Rightarrow> CartItem list" where
  "updateQuantity productId qty prevItems =
     (if qty \<le> 0 then removeFromCart productId prevItems
      else map (\<lambda>item. if id' item = productId then item\<lparr>quantity := qty\<rparr> else item)
             prevItems)"

text \<open>\<^verbatim>\<open>const clearCart = () => { setCartItems([]); };\<close>\<close>

definition clearCart :: "CartItem list \<Rightarrow> CartItem list" where
  "clearCart prevItems = []"

subsection \<open>Derived values\<close>

text \<open>
  Both are recomputed from \<open>cartItems\<close> on every render of the provider. The additions and
  multiplications are those of the integers: the rounding of the source's double arithmetic is
  outside the model, so these definitions say what the code computes on integer prices and
  quantities whose sums stay exactly representable.
  \<^verbatim>\<open>
  const cartTotal = cartItems.reduce((total, item) => total + item.price * item.quantity, 0);
  const itemCount = cartItems.reduce((count, item) => count + item.quantity, 0);
  \<close>
\<close>

definition cartTotal :: "CartItem list \<Rightarrow> number" where
  "cartTotal cartItems = foldl (\<lambda>total item. total + price item * quantity item) 0 cartItems"

definition itemCount :: "CartItem list \<Rightarrow> number" where
  "itemCount cartItems = foldl (\<lambda>count item. count + quantity item) 0 cartItems"

subsection \<open>The hook\<close>

text \<open>
  \<^verbatim>\<open>
  export const useCart = () => {
    const context = useContext(CartContext);
    if (context === undefined) {
      throw new Error('useCart must be used within a CartProvider');
    }
    return context;
  };
  \<close>
  The context is created with the default \<open>undefined\<close>, so \<open>useContext\<close> yields \<open>undefined\<close>
  exactly when no provider is in scope: the context value is an option.

  What the code can throw: an \<open>Error\<close> with its message, and the \<open>SecurityError\<close> with
  which the platform answers an access to \<open>localStorage\<close> when storage is disallowed.
\<close>

datatype error = Error string | SecurityError

definition useCart :: "'ctx option \<Rightarrow> error + 'ctx" where
  "useCart context =
     (case context of
        None \<Rightarrow> Inl (Error ''useCart must be used within a CartProvider'')
      | Some c \<Rightarrow> Inr c)"

subsection \<open>Reachable carts\<close>


text \<open>A run of \<open>addToCart\<close> calls, applied in order.\<close>

definition addAll :: "(Product \<times> number) list \<Rightarrow> CartItem list \<Rightarrow> CartItem list" where
  "addAll calls cartItems = foldl (\<lambda>items (product, qty). addToCart product qty items) cartItems calls"

section \<open>The platform: JSON and localStorage\<close>

text \<open>
  The two effects of the provider call \<open>JSON.parse\<close>, \<open>JSON.stringify\<close>, \<open>Array.isArray\<close>
  and \<open>localStorage\<close>. These belong to the JavaScript platform, not to the repository; they
  are modelled here so that the effects can be run on concrete stored texts.

  A JSON value is a syntax tree; an object keeps its members in the order of the text.
  Numbers are integers, as everywhere in this model: a number literal with a fraction or an
  exponent is kept as its text (\<open>JFraction\<close>), and no line item has one. A string is a list of
  8-bit characters (the bytes of its UTF-8 encoding).
\<close>

datatype json =
    JNull
  | JBool bool
  | JNumber number
  | JFraction string
  | JString string
  | JArray "json list"
  | JObject "(string \<times> json) list"

text \<open>\<open>Array.isArray(value)\<close>.\<close>

fun Array_isArray :: "json \<Rightarrow> bool" where
  "Array_isArray (JArray vs) = True"
| "Array_isArray v = False"

subsection \<open>\<open>JSON.stringify\<close>\<close>

text \<open>
  The compact text that \<open>JSON.stringify\<close> prints: no white space, integers in decimal,
  strings in double quotes with the double quote, the backslash and the control characters
  escaped (backspace, form feed, newline, carriage return and tab by their letter, the other
  control characters by four hexadecimal digits).
\<close>

definition digit_char :: "nat \<Rightarrow> char" where
  "digit_char d = char_of (48 + d)"

fun digits :: "nat \<Rightarrow> string" where
  "digits n = (if n < 10 then [digit_char n] else digits (n div 10) @ [digit_char (n mod 10)])"

declare digits.simps [simp del]

definition show_number :: "number \<Rightarrow> string" where
  "show_number i = (if i < 0 then CHR ''-'' # digits (nat (- i)) else digits (nat i))"

definition hex_char :: "nat \<Rightarrow> char" where
  "hex_char d = (if d < 10 then char_of (48 + d) else char_of (87 + d))"

definition escape_char :: "char \<Rightarrow> string" where
  "escape_char c =
     (if c = CHR 0x22 then [CHR 0x5C, CHR 0x22]
      else if c = CHR 0x5C then [CHR 0x5C, CHR 0x5C]
      else if c = CHR 0x08 then [CHR 0x5C, CHR ''b'']
      else if c = CHR 0x0C then [CHR 0x5C, CHR ''f'']
      else if c = CHR 0x0A then [CHR 0x5C, CHR ''n'']
      else if c = CHR 0x0D then [CHR 0x5C, CHR ''r'']
      else if c = CHR 0x09 then [CHR 0x5C, CHR ''t'']
      else if (of_char c :: nat) < 32
        then [CHR 0x5C, CHR ''u'', CHR ''0'', CHR ''0'',
              hex_char (of_char c div 16), hex_char (of_char c mod 16)]
      else [c])"

definition quote :: "string \<Rightarrow> string" where
  "quote s = CHR 0x22 # concat (map escape_char s) @ [CHR 0x22]"

fun commas :: "string list \<Rightarrow> string" where
  "commas [] = []"
| "commas [x] = x"
| "commas (x # y # ys) = x @ CHR '','' # commas (y # ys)"

fun JSON_stringify :: "json \<Rightarrow> string" where
  "JSON_stringify JNull = ''null''"
| "JSON_stringify (JBool b) = (if b then ''true'' else ''false'')"
| "JSON_stringify (JNumber i) = show_number i"
| "JSON_stringify (JFraction literal_text) = literal_text"
| "JSON_stringify (JString s) = quote s"
| "JSON_stringify (JArray vs) = CHR ''['' # commas (map JSON_stringify vs) @ '']''"
| "JSON_stringify (JObject kvs) =
     CHR ''{'' # commas (map (\<lambda>(k, v). quote k @ CHR '':'' # JSON_stringify v) kvs) @ ''}''"

subsection \<open>\<open>JSON.parse\<close>\<close>

text \<open>
  A recursive-descent parser of the JSON grammar: white space between tokens, the three
  literals, numbers (no leading zero), strings with their escapes, arrays and objects. The
  three mutually recursive functions take fuel, one unit per nested value or further element;
  \<open>JSON_parse\<close> gives them the length of the text. \<open>None\<close> stands for the \<open>SyntaxError\<close>
  that \<open>JSON.parse\<close> throws.
\<close>

definition is_ws :: "char \<Rightarrow> bool" where
  "is_ws c = (c = CHR 0x20 \<or> c = CHR 0x09 \<or> c = CHR 0x0A \<or> c = CHR 0x0D)"

definition skip_ws :: "string \<Rightarrow> string" where
  "skip_ws cs = dropWhile is_ws cs"

definition is_digit :: "char \<Rightarrow> bool" where
  "is_digit c = (48 \<le> (of_char c :: nat) \<and> (of_char c :: nat) \<le> 57)"

definition digit_val :: "char \<Rightarrow> nat" where
  "digit_val c = of_char c - 48"

fun parse_digits :: "nat \<Rightarrow> string \<Rightarrow> nat \<times> string" where
  "parse_digits acc [] = (acc, [])"
| "parse_digits acc (c # cs) =
     (if is_digit c then parse_digits (10 * acc + digit_val c) cs else (acc, c # cs))"

definition parse_nat :: "string \<Rightarrow> (nat \<times> string) option" where
  "parse_nat cs =
     (case cs of
        [] \<Rightarrow> None
      | c # cs' \<Rightarrow>
          if c = CHR ''0'' then Some (0, cs')
          else if is_digit c then Some (parse_digits 0 (c # cs'))
          else None)"

text \<open>
  The optional fraction and the optional exponent of a number literal; each gives the
  characters it read (none when the part is absent) and the rest of the text.
\<close>

definition digits1 :: "string \<Rightarrow> (string \<times> string) option" where
  "digits1 cs =
     (if takeWhile is_digit cs = [] then None
      else Some (takeWhile is_digit cs, dropWhile is_digit cs))"

definition parse_frac :: "string \<Rightarrow> (string \<times> string) option" where
  "parse_frac cs =
     (case cs of
        [] \<Rightarrow> Some ([], [])
      | c # cs' \<Rightarrow>
          if c = CHR ''.'' then map_option (\<lambda>(ds, rest). (c # ds, rest)) (digits1 cs')
          else Some ([], cs))"

definition parse_exp :: "string \<Rightarrow> (string \<times> string) option" where
  "parse_exp cs =
     (case cs of
        [] \<Rightarrow> Some ([], [])
      | c # cs' \<Rightarrow>
          if c = CHR ''e'' \<or> c = CHR ''E'' then
            (case cs' of
               [] \<Rightarrow> None
             | s # cs'' \<Rightarrow>
                 if s = CHR ''+'' \<or> s = CHR ''-''
                 then map_option (\<lambda>(ds, rest). (c # s # ds, rest)) (digits1 cs'')
                 else map_option (\<lambda>(ds, rest). (c # ds, rest)) (digits1 cs'))
          else Some ([], cs))"

definition parse_number :: "string \<Rightarrow> (json \<times> string) option" where
  "parse_number cs =
     (case cs of
        [] \<Rightarrow> None
      | c # cs' \<Rightarrow>
          (case (if c = CHR ''-'' then parse_nat cs' else parse_nat cs) of
             None \<Rightarrow> None
           | Some (n, rest) \<Rightarrow>
               (case parse_frac rest of
                  None \<Rightarrow> None
                | Some (fraction, rest') \<Rightarrow>
                    (case parse_exp rest' of
                       None \<Rightarrow> None
                     | Some (exponent, rest'') \<Rightarrow>
                         if fraction = [] \<and> exponent = []
                         then Some (JNumber (if c = CHR ''-'' then - int n else int n), rest'')
                         else Some (JFraction (take (length cs - length rest'') cs), rest'')))))"

definition hex_val :: "char \<Rightarrow> nat option" where
  "hex_val c =
     (let n = (of_char c :: nat) in
      if 48 \<le> n \<and> n \<le> 57 then Some (n - 48)
      else if 97 \<le> n \<and> n \<le> 102 then Some (n - 87)
      else if 65 \<le> n \<and> n \<le> 70 then Some (n - 55)
      else None)"

definition hex4 :: "char \<Rightarrow> char \<Rightarrow> char \<Rightarrow> char \<Rightarrow> nat option" where
  "hex4 a b c d =
     (case (hex_val a, hex_val b, hex_val c, hex_val d) of
        (Some x, Some y, Some z, Some w) \<Rightarrow> Some (4096 * x + 256 * y + 16 * z + w)
      | _ \<Rightarrow> None)"

definition utf8 :: "nat \<Rightarrow> string" where
  "utf8 n =
     (if n < 128 then [char_of n]
      else if n < 2048 then [char_of (192 + n div 64), char_of (128 + n mod 64)]
      else [char_of (224 + n div 4096), char_of (128 + n div 64 mod 64), char_of (128 + n mod 64)])"

definition unescape :: "char \<Rightarrow> char option" where
  "unescape e =
     (if e = CHR 0x22 then Some (CHR 0x22)
      else if e = CHR 0x5C then Some (CHR 0x5C)
      else if e = CHR ''/'' then Some (CHR ''/'')
      else if e = CHR ''b'' then Some (CHR 0x08)
      else if e = CHR ''f'' then Some (CHR 0x0C)
      else if e = CHR ''n'' then Some (CHR 0x0A)
      else if e = CHR ''r'' then Some (CHR 0x0D)
      else if e = CHR ''t'' then Some (CHR 0x09)
      else None)"

fun parse_chars :: "string \<Rightarrow> (string \<times> string) option" where
  "parse_chars [] = None"
| "parse_chars (c # cs) =
     (if c = CHR 0x22 then Some ([], cs)
      else if c = CHR 0x5C then
        (case cs of
           [] \<Rightarrow> None
         | e # cs' \<Rightarrow>
             if e = CHR ''u'' then
               (case cs' of
                  h1 # h2 # h3 # h4 # cs'' \<Rightarrow>
                    (case hex4 h1 h2 h3 h4 of
                       None \<Rightarrow> None
                     | Some n \<Rightarrow> map_option (\<lambda>(s, rest). (utf8 n @ s, rest)) (parse_chars cs''))
                | _ \<Rightarrow> None)
             else
               (case unescape e of
                  None \<Rightarrow> None
                | Some ch \<Rightarrow> map_option (\<lambda>(s, rest). (ch # s, rest)) (parse_chars cs')))
      else if (of_char c :: nat) < 32 then None
      else map_option (\<lambda>(s, rest). (c # s, rest)) (parse_chars cs))"

definition literal :: "string \<Rightarrow> json \<Rightarrow> string \<Rightarrow> (json \<times> string) option" where
  "literal word v cs =
     (if take (length word) cs = word then Some (v, drop (length word) cs) else None)"

fun parse_value :: "nat \<Rightarrow> string \<Rightarrow> (json \<times> string) option"
  and parse_elements :: "nat \<Rightarrow> string \<Rightarrow> (json list \<times> string) option"
  and parse_members :: "nat \<Rightarrow> string \<Rightarrow> ((string \<times> json) list \<times> string) option"
where
  "parse_value 0 cs = None"
| "parse_value (Suc n) cs =
     (case skip_ws cs of
        [] \<Rightarrow> None
      | c # cs' \<Rightarrow>
          if c = CHR ''n'' then literal ''null'' JNull (c # cs')
          else if c = CHR ''t'' then literal ''true'' (JBool True) (c # cs')
          else if c = CHR ''f'' then literal ''false'' (JBool False) (c # cs')
          else if c = CHR 0x22 then map_option (\<lambda>(s, rest). (JString s, rest)) (parse_chars cs')
          else if c = CHR ''['' then
            (case skip_ws cs' of
               [] \<Rightarrow> None
             | d # rest \<Rightarrow>
                 if d = CHR '']'' then Some (JArray [], rest)
                 else map_option (\<lambda>(vs, rest). (JArray vs, rest)) (parse_elements n cs'))
          else if c = CHR ''{'' then
            (case skip_ws cs' of
               [] \<Rightarrow> None
             | d # rest \<Rightarrow>
                 if d = CHR ''}'' then Some (JObject [], rest)
                 else map_option (\<lambda>(kvs, rest). (JObject kvs, rest)) (parse_members n cs'))
          else parse_number (c # cs'))"
| "parse_elements 0 cs = None"
| "parse_elements (Suc n) cs =
     (case parse_value n cs of
        None \<Rightarrow> None
      | Some (v, rest) \<Rightarrow>
          (case skip_ws rest of
             [] \<Rightarrow> None
           | d # rest' \<Rightarrow>
               if d = CHR '','' then map_option (\<lambda>(vs, r). (v # vs, r)) (parse_elements n rest')
               else if d = CHR '']'' then Some ([v], rest')
               else None))"
| "parse_members 0 cs = None"
| "parse_members (Suc n) cs =
     (case skip_ws cs of
        [] \<Rightarrow> None
      | q # cs' \<Rightarrow>
          if q = CHR 0x22 then
            (case parse_chars cs' of
               None \<Rightarrow> None
             | Some (k, rest) \<Rightarrow>
                 (case skip_ws rest of
                    [] \<Rightarrow> None
                  | colon # rest' \<Rightarrow>
                      if colon = CHR '':'' then
                        (case parse_value n rest' of
                           None \<Rightarrow> None
                         | Some (v, rest'') \<Rightarrow>
                             (case skip_ws rest'' of
                                [] \<Rightarrow> None
                              | d # rest''' \<Rightarrow>
                                  if d = CHR '','' then
                                    map_option (\<lambda>(kvs, r). ((k, v) # kvs, r)) (parse_members n rest''')
                                  else if d = CHR ''}'' then Some ([(k, v)], rest''')
                                  else None))
                      else None))
          else None)"

definition JSON_parse :: "string \<Rightarrow> json option" where
  "JSON_parse text =
     (case parse_value (length text) text of
        None \<Rightarrow> None
      | Some (v, rest) \<Rightarrow> if skip_ws rest = [] then Some v else None)"

subsection \<open>\<open>localStorage\<close>\<close>

text \<open>
  The storage of the origin is a map from keys to texts; \<open>getItem\<close> is \<open>null\<close> on a missing
  key. Where the user agent disallows storage, every access to \<open>localStorage\<close> throws a
  \<open>SecurityError\<close> (\<open>Denied\<close>). A quota is not modelled.
\<close>

datatype storage = Denied | Storage "string \<rightharpoonup> string"

definition getItem :: "storage \<Rightarrow> string \<Rightarrow> error + string option" where
  "getItem storage key =
     (case storage of Denied \<Rightarrow> Inl SecurityError | Storage entries \<Rightarrow> Inr (entries key))"

definition setItem :: "storage \<Rightarrow> string \<Rightarrow> string \<Rightarrow> error + storage" where
  "setItem storage key text =
     (case storage of
        Denied \<Rightarrow> Inl SecurityError
      | Storage entries \<Rightarrow> Inr (Storage (entries(key \<mapsto> text))))"

definition removeItem :: "storage \<Rightarrow> string \<Rightarrow> error + storage" where
  "removeItem storage key =
     (case storage of
        Denied \<Rightarrow> Inl SecurityError
      | Storage entries \<Rightarrow> Inr (Storage (entries(key := None))))"

section \<open>The two effects of the provider\<close>

subsection \<open>Line items as JSON values\<close>

text \<open>
  Modelled from the spec: with the declaration of \<open>CartItem\<close>, its shape at run time is not in
  the source. A line item is the object of its fields (storage layout of the spec: an array of
  objects with at least \<open>id\<close> and \<open>quantity\<close>, plus the display fields copied from the
  product). \<open>as_CartItem\<close> is the view that the unchecked cast of \<open>parsedData\<close> to
  \<open>CartItem[]\<close> takes of a parsed value: it reads the fields by name (of a repeated key the
  last member counts, as in JavaScript) and is \<open>None\<close> on a value that is not a line item.
\<close>

definition CartItem_json :: "CartItem \<Rightarrow> json" where
  "CartItem_json item =
     JObject [(''id'', JString (id' item)),
              (''name'', JString (name item)),
              (''price'', JNumber (price item)),
              (''images'', JArray (map JString (images item))),
              (''categoryName'', JString (categoryName item)),
              (''inStock'', JBool (inStock item)),
              (''quantity'', JNumber (quantity item))]"

definition property :: "(string \<times> json) list \<Rightarrow> string \<Rightarrow> json option" where
  "property members key = map_of (rev members) key"

fun as_string :: "json \<Rightarrow> string option" where
  "as_string (JString s) = Some s"
| "as_string v = None"

fun as_number :: "json \<Rightarrow> number option" where
  "as_number (JNumber i) = Some i"
| "as_number v = None"

fun as_boolean :: "json \<Rightarrow> bool option" where
  "as_boolean (JBool b) = Some b"
| "as_boolean v = None"

fun as_strings :: "json \<Rightarrow> string list option" where
  "as_strings (JArray vs) = those (map as_string vs)"
| "as_strings v = None"

definition read_field :: "(string \<times> json) list \<Rightarrow> string \<Rightarrow> (json \<Rightarrow> 'a option) \<Rightarrow> 'a option" where
  "read_field members key as = Option.bind (property members key) as"

fun as_CartItem :: "json \<Rightarrow> CartItem option" where
  "as_CartItem (JObject members) =
     Option.bind (read_field members ''id'' as_string) (\<lambda>i.
     Option.bind (read_field members ''name'' as_string) (\<lambda>n.
     Option.bind (read_field members ''price'' as_number) (\<lambda>p.
     Option.bind (read_field members ''images'' as_strings) (\<lambda>ims.
     Option.bind (read_field members ''categoryName'' as_string) (\<lambda>c.
     Option.bind (read_field members ''inStock'' as_boolean) (\<lambda>s.
     Option.bind (read_field members ''quantity'' as_number) (\<lambda>q.
       Some \<lparr>id' = i, name = n, price = p, images = ims, categoryName = c,
             inStock = s, quantity = q\<rparr>)))))))"
| "as_CartItem v = None"

text \<open>The array of the line items, and the view of a parsed value as \<open>CartItem[]\<close>.\<close>

definition CartItems_json :: "CartItem list \<Rightarrow> json" where
  "CartItems_json cartItems = JArray (map CartItem_json cartItems)"

fun as_CartItems :: "json \<Rightarrow> CartItem list option" where
  "as_CartItems (JArray elements) = those (map as_CartItem elements)"
| "as_CartItems v = None"

subsection \<open>Loading the cart on mount\<close>

text \<open>
  \<^verbatim>\<open>
  useEffect(() => {
    setHasMounted(true);
    const localData = localStorage.getItem('cartItems');
    if (localData) {
      try {
        const parsedData = JSON.parse(localData);
        if (Array.isArray(parsedData)) {
          setCartItems(parsedData);
        } else {
          console.warn("Invalid cart data in localStorage:", parsedData);
          localStorage.removeItem('cartItems');
        }
      } catch (error) {
        console.error("Error parsing cart data from localStorage:", error);
        localStorage.removeItem('cartItems');
      }
    }
  }, []);
  \<close>
  The effect returns what it did: the value given to \<open>setHasMounted\<close>, the argument of
  \<open>setCartItems\<close> when it was called, the storage afterwards and the console calls. The
  condition \<open>if (localData)\<close> fails on \<open>null\<close> and on the empty text. The call of
  \<open>getItem\<close> stands before the \<open>try\<close> block, so what it throws leaves the effect; a
  \<open>removeItem\<close> that throws does so in the \<open>catch\<close> block at the latest, and leaves the
  effect too.
\<close>

datatype console_call = console_warn | console_error

record hydration =
  setHasMounted :: bool
  setCartItems :: "json option"
  localStorage :: storage
  console :: "console_call list"

definition hydration_effect :: "storage \<Rightarrow> error + hydration" where
  "hydration_effect storage =
     (case getItem storage ''cartItems'' of
        Inl thrown \<Rightarrow> Inl thrown
      | Inr None \<Rightarrow>
          Inr \<lparr>setHasMounted = True, setCartItems = None, localStorage = storage, console = []\<rparr>
      | Inr (Some localData) \<Rightarrow>
          if localData = [] then
            Inr \<lparr>setHasMounted = True, setCartItems = None, localStorage = storage, console = []\<rparr>
          else
            (case JSON_parse localData of
               Some parsedData \<Rightarrow>
                 if Array_isArray parsedData then
                   Inr \<lparr>setHasMounted = True, setCartItems = Some parsedData,
                        localStorage = storage, console = []\<rparr>
                 else
                   (case removeItem storage ''cartItems'' of
                      Inl thrown \<Rightarrow> Inl thrown
                    | Inr storage' \<Rightarrow>
                        Inr \<lparr>setHasMounted = True, setCartItems = None,
                             localStorage = storage', console = [console_warn]\<rparr>)
             | None \<Rightarrow>
                 (case removeItem storage ''cartItems'' of
                    Inl thrown \<Rightarrow> Inl thrown
                  | Inr storage' \<Rightarrow>
                      Inr \<lparr>setHasMounted = True, setCartItems = None,
                           localStorage = storage', console = [console_error]\<rparr>)))"

text \<open>
  The line items after the effect: the previous ones when \<open>setCartItems\<close> was not called,
  the parsed array otherwise (\<open>None\<close> when the array holds a value that is not a line item:
  the state then is outside \<open>CartItem[]\<close>, and the typed mutations say nothing about it).
\<close>

definition cartItems_after :: "hydration \<Rightarrow> CartItem list \<Rightarrow> CartItem list option" where
  "cartItems_after h prevItems =
     (case setCartItems h of
        None \<Rightarrow> Some prevItems
      | Some parsedData \<Rightarrow> as_CartItems parsedData)"

subsection \<open>Saving the cart after every change\<close>

text \<open>
  \<^verbatim>\<open>
  useEffect(() => {
    if (hasMounted) {
      localStorage.setItem('cartItems', JSON.stringify(cartItems));
    }
  }, [cartItems, hasMounted]);
  \<close>
\<close>

definition persistence_effect :: "bool \<Rightarrow> CartItem list \<Rightarrow> storage \<Rightarrow> error + storage" where
  "persistence_effect hasMounted cartItems storage =
     (if hasMounted
      then setItem storage ''cartItems'' (JSON_stringify (CartItems_json cartItems))
      else Inr storage)"

subsection \<open>Reachable carts, hydration included\<close>

text \<open>
  The carts that the four mutations and the hydration effect produce from the empty cart.
  The hydration effect replaces the line items by the stored array; \<open>stored_ok\<close> says which
  stored arrays are considered.
\<close>

inductive reachable_hydrated :: "(CartItem list \<Rightarrow> bool) \<Rightarrow> CartItem list \<Rightarrow> bool"
  for stored_ok :: "CartItem list \<Rightarrow> bool"
where
  h_initial: "reachable_hydrated stored_ok []"
| h_add: "reachable_hydrated stored_ok items \<Longrightarrow>
     reachable_hydrated stored_ok (addToCart product qty items)"
| h_remove: "reachable_hydrated stored_ok items \<Longrightarrow>
     reachable_hydrated stored_ok (removeFromCart productId items)"
| h_update: "reachable_hydrated stored_ok items \<Longrightarrow>
     reachable_hydrated stored_ok (updateQuantity productId qty items)"
| h_clear: "reachable_hydrated stored_ok items \<Longrightarrow>
     reachable_hydrated stored_ok (clearCart items)"
| h_hydrate: "reachable_hydrated stored_ok items \<Longrightarrow>
     hydration_effect storage = Inr h \<Longrightarrow>
     cartItems_after h items = Some items' \<Longrightarrow>
     stored_ok items' \<Longrightarrow>
     reachable_hydrated stored_ok items'"

subsection \<open>Auxiliary notions for the round trip of JSON texts\<close>

text \<open>
  The values that hold integers only (\<open>integral\<close>), what may follow a printed value
  (\<open>delimited\<close>), what a printed value starts with, and the text of one object member.
\<close>

fun integral :: "json \<Rightarrow> bool" where
  "integral (JFraction literal_text) = False"
| "integral (JArray vs) = list_all integral vs"
| "integral (JObject kvs) = list_all (\<lambda>kv. integral (snd kv)) kvs"
| "integral v = True"

definition no_digit_ahead :: "string \<Rightarrow> bool" where
  "no_digit_ahead rest = (case rest of [] \<Rightarrow> True | c # _ \<Rightarrow> \<not> is_digit c)"

definition delimited :: "string \<Rightarrow> bool" where
  "delimited rest = (case rest of [] \<Rightarrow> True | c # _ \<Rightarrow> c = CHR '','' \<or> c = CHR '']'' \<or> c = CHR ''}'')"

definition value_start :: "char \<Rightarrow> bool" where
  "value_start c = (\<not> is_ws c \<and> c \<noteq> CHR '']'' \<and> c \<noteq> CHR ''}'' \<and> c \<noteq> CHR '','')"

definition number_start :: "char \<Rightarrow> bool" where
  "number_start c =
     (\<not> is_ws c \<and> c \<noteq> CHR ''n'' \<and> c \<noteq> CHR ''t'' \<and> c \<noteq> CHR ''f'' \<and> c \<noteq> CHR 0x22 \<and>
      c \<noteq> CHR ''['' \<and> c \<noteq> CHR ''{'' \<and> c \<noteq> CHR '']'' \<and> c \<noteq> CHR ''}'' \<and> c \<noteq> CHR '','')"

definition member :: "string \<times> json \<Rightarrow> string" where
  "member kv = quote (fst kv) @ CHR '':'' # JSON_stringify (snd kv)"

subsection \<open>Example products\<close>

definition P1 :: Product where
  "P1 = \<lparr>id' = ''p1'', name = ''Shirt'', price = 10, images = [], categoryName = ''Tops'', inStock = True\<rparr>"

definition P2 :: Product where
  "P2 = \<lparr>id' = ''p2'', name = ''Socks'', price = 5, images = [''socks.png''], categoryName = ''Feet'', inStock = True\<rparr>"

section \<open>Properties of the mutations and the derived values\<close>

lemma find_id_None: "find (\<lambda>item. id' item = pid) items = None \<longleftrightarrow> pid \<notin> id' ` set items"
  by (auto simp: find_None_iff)

lemma find_id_Some: "pid \<in> id' ` set items \<Longrightarrow> \<exists>e. find (\<lambda>item. id' item = pid) items = Some e"
  using find_id_None [of pid items] by (cases "find (\<lambda>item. id' item = pid) items") auto

lemma addToCart_absent:
  "id' product \<notin> id' ` set items \<Longrightarrow> addToCart product qty items = items @ [newCartItem product qty]"
  using find_id_None [of "id' product" items] by (simp add: addToCart_def)

lemma addToCart_present:
  "id' product \<in> id' ` set items \<Longrightarrow>
   addToCart product qty items =
     map (\<lambda>item. if id' item = id' product then item\<lparr>quantity := max 0 (quantity item + qty)\<rparr> else item) items"
  using find_id_Some [of "id' product" items] by (auto simp: addToCart_def)

lemma removeFromCart_absent: "pid \<notin> id' ` set items \<Longrightarrow> removeFromCart pid items = items"
  by (auto simp: removeFromCart_def filter_id_conv)

text \<open>
  Claim C1. \<open>addToCart(product, q)\<close>: when a line item with the product's identifier
  exists, the cart keeps its length and its identifiers, every line item with that identifier
  gets the quantity \<open>max(0, old + q)\<close> (it stays in the cart, also at 0), and every other
  line item is untouched; when no such line item exists, one line item is appended, with
  quantity \<open>max(1, q)\<close> and the product's fields.
\<close>
theorem addToCart_spec:
  "(id' product \<in> id' ` set prevItems \<longrightarrow>
      length (addToCart product qty prevItems) = length prevItems \<and>
      map id' (addToCart product qty prevItems) = map id' prevItems \<and>
      (\<forall>i < length prevItems.
         addToCart product qty prevItems ! i =
           (if id' (prevItems ! i) = id' product
            then (prevItems ! i)\<lparr>quantity := max 0 (quantity (prevItems ! i) + qty)\<rparr>
            else prevItems ! i))) \<and>
   (id' product \<notin> id' ` set prevItems \<longrightarrow>
      (\<exists>item. addToCart product qty prevItems = prevItems @ [item] \<and>
              quantity item = max 1 qty \<and> Product.truncate item = product))"
proof (intro conjI impI)
  assume ex: "id' product \<in> id' ` set prevItems"
  note eq = addToCart_present [OF ex, of qty]
  show "length (addToCart product qty prevItems) = length prevItems"
    by (simp add: eq)
  show "map id' (addToCart product qty prevItems) = map id' prevItems"
    by (simp add: eq)
  show "\<forall>i < length prevItems.
         addToCart product qty prevItems ! i =
           (if id' (prevItems ! i) = id' product
            then (prevItems ! i)\<lparr>quantity := max 0 (quantity (prevItems ! i) + qty)\<rparr>
            else prevItems ! i)"
    by (simp add: eq)
next
  assume "id' product \<notin> id' ` set prevItems"
  then have "addToCart product qty prevItems = prevItems @ [newCartItem product qty]"
    by (rule addToCart_absent)
  moreover have "quantity (newCartItem product qty) = max 1 qty"
    by (simp add: newCartItem_def)
  moreover have "Product.truncate (newCartItem product qty) = product"
    by (simp add: newCartItem_def Product.truncate_def)
  ultimately show "\<exists>item. addToCart product qty prevItems = prevItems @ [item] \<and>
              quantity item = max 1 qty \<and> Product.truncate item = product"
    by blast
qed

theorem addToCart_spec_witness:
  "id' P1 \<notin> id' ` set [] \<and>
   (\<exists>item. addToCart P1 2 [] = [] @ [item] \<and> quantity item = max 1 2 \<and> Product.truncate item = P1) \<and>
   id' P1 \<in> id' ` set [newCartItem P1 2] \<and>
   addToCart P1 (-5) [newCartItem P1 2] ! 0 = (newCartItem P1 2)\<lparr>quantity := 0\<rparr>"
  using addToCart_spec [of P1 "[]" 2] addToCart_spec [of P1 "[newCartItem P1 2]" "-5"]
  by (simp add: newCartItem_def)

text \<open>
  Claim C2. \<open>updateQuantity(id, q)\<close> (the spec's \<open>setQuantity\<close>): for \<open>q \<le> 0\<close> it is
  \<open>removeFromCart(id)\<close>; for \<open>q > 0\<close> every line item with that identifier gets the quantity
  \<open>q\<close> exactly and nothing else changes; for \<open>q > 0\<close> and an identifier that is not in the
  cart, the cart is unchanged (nothing is inserted).
\<close>
theorem updateQuantity_spec:
  "(qty \<le> 0 \<longrightarrow> updateQuantity productId qty items = removeFromCart productId items) \<and>
   (0 < qty \<longrightarrow>
      length (updateQuantity productId qty items) = length items \<and>
      (\<forall>i < length items.
         updateQuantity productId qty items ! i =
           (if id' (items ! i) = productId then (items ! i)\<lparr>quantity := qty\<rparr> else items ! i))) \<and>
   (0 < qty \<and> productId \<notin> id' ` set items \<longrightarrow> updateQuantity productId qty items = items)"
proof (intro conjI impI)
  assume "qty \<le> 0"
  then show "updateQuantity productId qty items = removeFromCart productId items"
    by (simp add: updateQuantity_def)
next
  assume "0 < qty"
  then show "length (updateQuantity productId qty items) = length items"
    by (simp add: updateQuantity_def)
next
  assume "0 < qty"
  then show "\<forall>i < length items.
         updateQuantity productId qty items ! i =
           (if id' (items ! i) = productId then (items ! i)\<lparr>quantity := qty\<rparr> else items ! i)"
    by (simp add: updateQuantity_def)
next
  assume a: "0 < qty \<and> productId \<notin> id' ` set items"
  then have "\<forall>item \<in> set items. id' item \<noteq> productId"
    by auto
  then have "map (\<lambda>item. if id' item = productId then item\<lparr>quantity := qty\<rparr> else item) items = items"
    by (simp add: map_idI)
  with a show "updateQuantity productId qty items = items"
    by (simp add: updateQuantity_def)
qed

theorem updateQuantity_spec_witness:
  "(0::int) \<le> 0 \<and> updateQuantity ''p1'' 0 [newCartItem P1 2] = [] \<and>
   (-5::int) \<le> 0 \<and> updateQuantity ''p1'' (-5) [newCartItem P1 2] = [] \<and>
   (0::int) < 7 \<and> updateQuantity ''p1'' 7 [newCartItem P1 2] ! 0 = (newCartItem P1 2)\<lparr>quantity := 7\<rparr> \<and>
   ''p2'' \<notin> id' ` set [newCartItem P1 2] \<and> updateQuantity ''p2'' 7 [newCartItem P1 2] = [newCartItem P1 2]"
  using updateQuantity_spec [of 0 "''p1''" "[newCartItem P1 2]"]
    updateQuantity_spec [of "-5" "''p1''" "[newCartItem P1 2]"]
    updateQuantity_spec [of 7 "''p1''" "[newCartItem P1 2]"]
    updateQuantity_spec [of 7 "''p2''" "[newCartItem P1 2]"]
  by (simp add: newCartItem_def P1_def removeFromCart_def)

lemma filter_distinct_split:
  "distinct (map f xs) \<Longrightarrow> x \<in> set xs \<Longrightarrow>
   \<exists>ys zs. xs = ys @ x # zs \<and> filter (\<lambda>y. f y \<noteq> f x) xs = ys @ zs"
proof (induction xs)
  case Nil
  then show ?case by simp
next
  case (Cons a xs)
  show ?case
  proof (cases "a = x")
    case True
    with Cons.prems have "\<forall>y \<in> set xs. f y \<noteq> f x"
      by (metis distinct.simps(2) imageI list.simps(9) set_map)
    then have "filter (\<lambda>y. f y \<noteq> f x) xs = xs"
      by (simp add: filter_id_conv)
    with True have "a # xs = [] @ x # xs \<and> filter (\<lambda>y. f y \<noteq> f x) (a # xs) = [] @ xs"
      by simp
    then show ?thesis by blast
  next
    case False
    with Cons.prems have x: "x \<in> set xs" and d: "distinct (map f xs)" and ne: "f a \<noteq> f x"
      by auto
    from Cons.IH [OF d x] obtain ys zs where
      "xs = ys @ x # zs" "filter (\<lambda>y. f y \<noteq> f x) xs = ys @ zs"
      by blast
    with ne have "a # xs = (a # ys) @ x # zs \<and> filter (\<lambda>y. f y \<noteq> f x) (a # xs) = (a # ys) @ zs"
      by simp
    then show ?thesis by blast
  qed
qed

text \<open>
  Claim C9. \<open>removeFromCart(id)\<close> with an identifier that is not in the cart returns the
  same list of line items (same order, same total, same count); in general no line item with
  that identifier is left and the other line items stay, in order; and in a cart with one line
  item per identifier exactly that one line item is cut out.
\<close>
theorem removeFromCart_spec:
  "(productId \<notin> id' ` set items \<longrightarrow>
      removeFromCart productId items = items \<and>
      cartTotal (removeFromCart productId items) = cartTotal items \<and>
      itemCount (removeFromCart productId items) = itemCount items) \<and>
   productId \<notin> id' ` set (removeFromCart productId items) \<and>
   filter (\<lambda>item. id' item \<noteq> productId) (removeFromCart productId items) =
     filter (\<lambda>item. id' item \<noteq> productId) items \<and>
   (distinct (map id' items) \<and> productId \<in> id' ` set items \<longrightarrow>
      (\<exists>before item after. items = before @ item # after \<and> id' item = productId \<and>
          removeFromCart productId items = before @ after))"
proof (intro conjI impI)
  assume "productId \<notin> id' ` set items"
  then show "removeFromCart productId items = items"
    by (rule removeFromCart_absent)
  then show "cartTotal (removeFromCart productId items) = cartTotal items"
    and "itemCount (removeFromCart productId items) = itemCount items"
    by simp_all
next
  show "productId \<notin> id' ` set (removeFromCart productId items)"
    by (auto simp: removeFromCart_def)
  show "filter (\<lambda>item. id' item \<noteq> productId) (removeFromCart productId items) =
     filter (\<lambda>item. id' item \<noteq> productId) items"
    by (simp add: removeFromCart_def)
next
  assume a: "distinct (map id' items) \<and> productId \<in> id' ` set items"
  then obtain item where i: "item \<in> set items" "id' item = productId"
    by auto
  from filter_distinct_split [of id' items item] a i obtain ys zs where
    "items = ys @ item # zs" "filter (\<lambda>y. id' y \<noteq> id' item) items = ys @ zs"
    by blast
  with i show "\<exists>before item after. items = before @ item # after \<and> id' item = productId \<and>
          removeFromCart productId items = before @ after"
    unfolding removeFromCart_def by blast
qed

theorem removeFromCart_spec_witness:
  "''p3'' \<notin> id' ` set [newCartItem P1 1, newCartItem P2 4] \<and>
   removeFromCart ''p3'' [newCartItem P1 1, newCartItem P2 4] = [newCartItem P1 1, newCartItem P2 4] \<and>
   distinct (map id' [newCartItem P1 1, newCartItem P2 4]) \<and>
   ''p1'' \<in> id' ` set [newCartItem P1 1, newCartItem P2 4] \<and>
   removeFromCart ''p1'' [newCartItem P1 1, newCartItem P2 4] = [newCartItem P2 4]"
  using removeFromCart_spec [of "''p3''" "[newCartItem P1 1, newCartItem P2 4]"]
    removeFromCart_spec [of "''p1''" "[newCartItem P1 1, newCartItem P2 4]"]
  by (simp add: newCartItem_def P1_def P2_def removeFromCart_def)

text \<open>
  Claim C10. \<open>useCart\<close> throws the error with the message
  \<open>useCart must be used within a CartProvider\<close> when the context value is \<open>undefined\<close>
  (no provider in scope), and returns the context value otherwise.
\<close>
theorem useCart_spec:
  "useCart None = Inl (Error ''useCart must be used within a CartProvider'') \<and>
   useCart (Some context) = Inr context"
  by (simp add: useCart_def)








lemma filter_id_map_quantity:
  "filter (\<lambda>item. id' item = pid)
     (map (\<lambda>item. if id' item = pid then item\<lparr>quantity := g item\<rparr> else item) items) =
   map (\<lambda>item. item\<lparr>quantity := g item\<rparr>) (filter (\<lambda>item. id' item = pid) items)"
  by (induction items) auto

lemma addToCart_insert:
  assumes "id' product \<notin> id' ` set items"
  shows "filter (\<lambda>item. id' item = id' product) (addToCart product qty items) = [newCartItem product qty]"
proof -
  from assms have "\<forall>item \<in> set items. id' item \<noteq> id' product"
    by (metis image_eqI)
  then have "filter (\<lambda>item. id' item = id' product) items = []"
    by (simp add: filter_empty_conv)
  with addToCart_absent [OF assms, of qty] show ?thesis
    by (simp add: newCartItem_def)
qed

lemma addToCart_bump:
  assumes "filter (\<lambda>item. id' item = id' product) items = [it]"
  shows "filter (\<lambda>item. id' item = id' product) (addToCart product qty items) =
           [it\<lparr>quantity := max 0 (quantity it + qty)\<rparr>]"
proof -
  have "it \<in> set (filter (\<lambda>item. id' item = id' product) items)"
    by (simp add: assms)
  then have "id' product \<in> id' ` set items"
    by force
  from addToCart_present [OF this, of qty] assms show ?thesis
    by (simp add: filter_id_map_quantity)
qed

lemma addAll_bump:
  "\<forall>(p, q) \<in> set calls. id' p = pid \<Longrightarrow> filter (\<lambda>item. id' item = pid) items = [it] \<Longrightarrow>
   \<exists>it'. filter (\<lambda>item. id' item = pid) (addAll calls items) = [it'] \<and>
         quantity it' = foldl (\<lambda>acc q. max 0 (acc + q)) (quantity it) (map snd calls)"
proof (induction calls arbitrary: items it)
  case Nil
  then show ?case by (simp add: addAll_def)
next
  case (Cons c calls)
  obtain p q where c: "c = (p, q)"
    by (cases c)
  with Cons.prems have p: "id' p = pid" and rest: "\<forall>(p, q) \<in> set calls. id' p = pid"
    by auto
  from Cons.prems(2) p
  have "filter (\<lambda>item. id' item = pid) (addToCart p q items) = [it\<lparr>quantity := max 0 (quantity it + q)\<rparr>]"
    using addToCart_bump [of p items it q] by simp
  from Cons.IH [OF rest this] c show ?case
    by (simp add: addAll_def)
qed

lemma foldl_clamp_nonneg:
  "0 \<le> a \<Longrightarrow> \<forall>q \<in> set qs. 0 \<le> q \<Longrightarrow>
   foldl (\<lambda>acc q. max 0 (acc + q)) a qs = (a::int) + sum_list qs"
proof (induction qs arbitrary: a)
  case Nil
  then show ?case by simp
next
  case (Cons q qs)
  then have "0 \<le> a + q" and "\<forall>q \<in> set qs. 0 \<le> q"
    by simp_all
  with Cons.IH [of "a + q"] show ?case
    by (simp add: max_def)
qed

text \<open>
  Claim C4 says that a run of \<open>addToCart\<close> calls for one identifier ends with the sum of the
  quantities (clamped to at least 1 on insertion). The quantities 1, -5, 2 end with quantity
  2: the second call clamps at 0. Neither the sum with the first quantity clamped (-2) nor
  the sum with every quantity clamped (4) is 2.
\<close>
theorem addAll_same_id_counterexample:
  "addAll [(P1, 1), (P1, -5), (P1, 2)] [] = [(newCartItem P1 1)\<lparr>quantity := 2\<rparr>] \<and>
   quantity (hd (addAll [(P1, 1), (P1, -5), (P1, 2)] [])) \<noteq> max 1 1 + sum_list [-5, 2] \<and>
   quantity (hd (addAll [(P1, 1), (P1, -5), (P1, 2)] [])) \<noteq> sum_list (map (max 1) [1, -5, 2])"
  by (simp add: addAll_def addToCart_def newCartItem_def)

text \<open>
  Claim C4, amended. After a non-empty run of \<open>addToCart\<close> calls with one product identifier,
  from a cart without that identifier, the cart has exactly one line item for the identifier;
  its quantity is \<open>max(1, q1)\<close> followed by each later quantity added in turn, clamped at 0
  after each addition; when every later quantity is at least 0 that is
  \<open>max(1, q1) + q2 + ... + qn\<close>. For a product \<open>p1\<close> of price 10, adding 2 and then 3 to
  the empty cart gives one line item of quantity 5, total 50 and count 5.
\<close>
theorem addAll_same_id_amended:
  "((\<forall>(p, q) \<in> set ((product, qty) # later). id' p = productId) \<and> productId \<notin> id' ` set items \<longrightarrow>
      (\<exists>item. filter (\<lambda>item. id' item = productId) (addAll ((product, qty) # later) items) = [item] \<and>
         quantity item = foldl (\<lambda>acc q. max 0 (acc + q)) (max 1 qty) (map snd later) \<and>
         ((\<forall>q \<in> set (map snd later). 0 \<le> q) \<longrightarrow>
            quantity item = max 1 qty + sum_list (map snd later)))) \<and>
   (id' p1 = ''p1'' \<and> price p1 = 10 \<longrightarrow>
      (\<exists>item. addAll [(p1, 2), (p1, 3)] [] = [item] \<and> id' item = ''p1'' \<and> quantity item = 5) \<and>
      cartTotal (addAll [(p1, 2), (p1, 3)] []) = 50 \<and>
      itemCount (addAll [(p1, 2), (p1, 3)] []) = 5)"
proof (intro conjI impI)
  assume a: "(\<forall>(p, q) \<in> set ((product, qty) # later). id' p = productId) \<and> productId \<notin> id' ` set items"
  then have p: "id' product = productId" and rest: "\<forall>(p, q) \<in> set later. id' p = productId"
    by auto
  from a p have "filter (\<lambda>item. id' item = productId) (addToCart product qty items) = [newCartItem product qty]"
    using addToCart_insert [of product items qty] by simp
  from addAll_bump [OF rest this] obtain it' where
    f: "filter (\<lambda>item. id' item = productId) (addAll later (addToCart product qty items)) = [it']" and
    q: "quantity it' = foldl (\<lambda>acc q. max 0 (acc + q)) (quantity (newCartItem product qty)) (map snd later)"
    by blast
  have q': "quantity it' = foldl (\<lambda>acc q. max 0 (acc + q)) (max 1 qty) (map snd later)"
    using q by (simp add: newCartItem_def)
  have "(\<forall>q \<in> set (map snd later). 0 \<le> q) \<longrightarrow> quantity it' = max 1 qty + sum_list (map snd later)"
    using q' foldl_clamp_nonneg [of "max 1 qty" "map snd later"] by simp
  with f q' show "\<exists>item. filter (\<lambda>item. id' item = productId) (addAll ((product, qty) # later) items) = [item] \<and>
         quantity item = foldl (\<lambda>acc q. max 0 (acc + q)) (max 1 qty) (map snd later) \<and>
         ((\<forall>q \<in> set (map snd later). 0 \<le> q) \<longrightarrow>
            quantity item = max 1 qty + sum_list (map snd later))"
    by (simp add: addAll_def)
next
  assume a: "id' p1 = ''p1'' \<and> price p1 = 10"
  have e: "addAll [(p1, 2), (p1, 3)] [] = [(newCartItem p1 2)\<lparr>quantity := 5\<rparr>]"
    by (simp add: addAll_def addToCart_def newCartItem_def)
  with a show "\<exists>item. addAll [(p1, 2), (p1, 3)] [] = [item] \<and> id' item = ''p1'' \<and> quantity item = 5"
    by (simp add: newCartItem_def)
  from a show "cartTotal (addAll [(p1, 2), (p1, 3)] []) = 50"
    by (simp add: e cartTotal_def newCartItem_def)
  show "itemCount (addAll [(p1, 2), (p1, 3)] []) = 5"
    by (simp add: e itemCount_def)
qed

theorem addAll_same_id_amended_witness:
  "list_all (\<lambda>(p, q). id' p = ''p1'') ((P1, 2) # [(P1, 3), (P1\<lparr>price := 12\<rparr>, 0)]) \<and>
   ''p1'' \<notin> id' ` set [newCartItem P2 4] \<and>
   list_all (\<lambda>q. (0::int) \<le> q) (map snd [(P1, 3), (P1\<lparr>price := 12\<rparr>, 0)]) \<and>
   filter (\<lambda>item. id' item = ''p1'') (addAll ((P1, 2) # [(P1, 3), (P1\<lparr>price := 12\<rparr>, 0)]) [newCartItem P2 4])
     = [(newCartItem P1 2)\<lparr>quantity := 5\<rparr>] \<and>
   id' P1 = ''p1'' \<and> price P1 = 10 \<and> cartTotal (addAll [(P1, 2), (P1, 3)] []) = 50 \<and>
   itemCount (addAll [(P1, 2), (P1, 3)] []) = 5"
proof -
  have h: "(\<forall>(p, q) \<in> set ((P1, 2) # [(P1, 3), (P1\<lparr>price := 12\<rparr>, 0)]). id' p = ''p1'') \<and>
     ''p1'' \<notin> id' ` set [newCartItem P2 4] \<and>
     (\<forall>q \<in> set (map snd [(P1, 3), (P1\<lparr>price := 12\<rparr>, 0)]). (0::int) \<le> q) \<and>
     id' P1 = ''p1'' \<and> price P1 = 10"
    by (simp add: P1_def P2_def newCartItem_def)
  have l: "list_all (\<lambda>(p, q). id' p = ''p1'') ((P1, 2) # [(P1, 3), (P1\<lparr>price := 12\<rparr>, 0)]) \<and>
     list_all (\<lambda>q. (0::int) \<le> q) (map snd [(P1, 3), (P1\<lparr>price := 12\<rparr>, 0)])"
    by (simp add: P1_def)
  have e: "filter (\<lambda>item. id' item = ''p1'') (addAll ((P1, 2) # [(P1, 3), (P1\<lparr>price := 12\<rparr>, 0)]) [newCartItem P2 4])
     = [(newCartItem P1 2)\<lparr>quantity := 5\<rparr>]"
    by (simp add: addAll_def addToCart_def P1_def P2_def newCartItem_def)
  from h l e
    addAll_same_id_amended [where product = P1 and qty = 2 and later = "[(P1, 3), (P1\<lparr>price := 12\<rparr>, 0)]"
      and productId = "''p1''" and items = "[newCartItem P2 4]" and ?p1.0 = P1]
  show ?thesis
    by blast
qed

section \<open>Parsing what \<open>JSON_stringify\<close> printed\<close>

lemma digit_char_is_digit: "d < 10 \<Longrightarrow> is_digit (digit_char d)"
  by (simp add: is_digit_def digit_char_def)

lemma digit_val_digit_char: "d < 10 \<Longrightarrow> digit_val (digit_char d) = d"
  by (simp add: digit_val_def digit_char_def)

lemma char_of_48: "char_of (48::nat) = CHR ''0''"
  by (rule of_char_eq_iff [THEN iffD1, where ?'a1 = nat]) simp

lemma digit_char_zero: "d < 10 \<Longrightarrow> digit_char d = CHR ''0'' \<longleftrightarrow> d = 0"
  by (auto simp: digit_char_def char_of_48 dest!: arg_cong [where f = "of_char :: char \<Rightarrow> nat"])

lemma digits_all_digit: "list_all is_digit (digits n)"
  by (induction n rule: digits.induct) (subst digits.simps, simp add: digit_char_is_digit)

lemma digits_nonempty: "digits n \<noteq> []"
  by (subst digits.simps) simp

lemma digits_value: "foldl (\<lambda>a c. 10 * a + digit_val c) 0 (digits n) = n"
  by (induction n rule: digits.induct) (subst digits.simps, simp add: digit_val_digit_char)

lemma hd_digits_nonzero: "0 < n \<Longrightarrow> hd (digits n) \<noteq> CHR ''0''"
proof (induction n rule: digits.induct)
  case (1 n)
  show ?case
  proof (cases "n < 10")
    case True
    with "1.prems" show ?thesis
      by (subst digits.simps) (simp add: digit_char_zero)
  next
    case False
    then have "0 < n div 10"
      by simp
    with "1.IH" False have "hd (digits (n div 10)) \<noteq> CHR ''0''"
      by simp
    with False show ?thesis
      by (subst digits.simps) (simp add: digits_nonempty)
  qed
qed

lemma parse_digits_stop: "no_digit_ahead rest \<Longrightarrow> parse_digits acc rest = (acc, rest)"
  by (cases rest) (simp_all add: no_digit_ahead_def)

lemma parse_digits_append:
  "list_all is_digit ds \<Longrightarrow> no_digit_ahead rest \<Longrightarrow>
   parse_digits acc (ds @ rest) = (foldl (\<lambda>a c. 10 * a + digit_val c) acc ds, rest)"
  by (induction ds arbitrary: acc) (simp_all add: parse_digits_stop)

lemma parse_nat_digits:
  assumes "no_digit_ahead rest"
  shows "parse_nat (digits n @ rest) = Some (n, rest)"
proof (cases "n = 0")
  case True
  then show ?thesis
    by (subst digits.simps) (simp add: parse_nat_def digit_char_def char_of_48)
next
  case False
  obtain c cs where d: "digits n = c # cs"
    using digits_nonempty [of n] by (cases "digits n") auto
  from False have "hd (digits n) \<noteq> CHR ''0''"
    by (simp add: hd_digits_nonzero)
  with d have c0: "c \<noteq> CHR ''0''"
    by simp
  from digits_all_digit [of n] d have cd: "is_digit c"
    by simp
  have "parse_digits 0 (digits n @ rest) = (n, rest)"
    using parse_digits_append [OF digits_all_digit assms, of 0 n] by (simp add: digits_value)
  with d c0 cd show ?thesis
    by (simp add: parse_nat_def)
qed

lemma delimited_no_digit: "delimited rest \<Longrightarrow> no_digit_ahead rest"
  by (cases rest) (auto simp: delimited_def no_digit_ahead_def is_digit_def)

lemma delimited_no_fraction: "delimited rest \<Longrightarrow> parse_frac rest = Some ([], rest)"
  by (cases rest) (auto simp: delimited_def parse_frac_def)

lemma delimited_no_exponent: "delimited rest \<Longrightarrow> parse_exp rest = Some ([], rest)"
  by (cases rest) (auto simp: delimited_def parse_exp_def)

lemma is_digit_not_minus: "is_digit c \<Longrightarrow> c \<noteq> CHR ''-''"
  by (auto simp: is_digit_def)

lemma parse_number_show:
  assumes "delimited rest"
  shows "parse_number (show_number i @ rest) = Some (JNumber i, rest)"
proof -
  note nat = parse_nat_digits [OF delimited_no_digit [OF assms]]
  note fin = delimited_no_fraction [OF assms] delimited_no_exponent [OF assms]
  show ?thesis
  proof (cases "i < 0")
    case True
    with nat [of "nat (- i)"] fin show ?thesis
      by (simp add: show_number_def parse_number_def)
  next
    case False
    obtain c cs where d: "digits (nat i) = c # cs"
      using digits_nonempty [of "nat i"] by (cases "digits (nat i)") auto
    from digits_all_digit [of "nat i"] d have "c \<noteq> CHR ''-''"
      by (simp add: is_digit_not_minus)
    with False d nat [of "nat i"] fin show ?thesis
      by (simp add: show_number_def parse_number_def)
  qed
qed

lemma hex_val_hex_char: "d < 16 \<Longrightarrow> hex_val (hex_char d) = Some d"
  by (simp add: hex_val_def hex_char_def Let_def)

lemma hex_val_zero: "hex_val (CHR ''0'') = Some 0"
  by (simp add: hex_val_def)

lemma hex4_control:
  "n < 32 \<Longrightarrow> hex4 (CHR ''0'') (CHR ''0'') (hex_char (n div 16)) (hex_char (n mod 16)) = Some n"
  by (simp add: hex4_def hex_val_zero hex_val_hex_char)

lemma utf8_ascii: "(of_char c :: nat) < 128 \<Longrightarrow> utf8 (of_char c) = [c]"
  by (simp add: utf8_def)

lemma parse_chars_escape:
  assumes "parse_chars cs = Some (s, rest)"
  shows "parse_chars (escape_char c @ cs) = Some (c # s, rest)"
proof -
  consider (special) "c \<in> {CHR 0x22, CHR 0x5C, CHR 0x08, CHR 0x0C, CHR 0x0A, CHR 0x0D, CHR 0x09}"
    | (control) "c \<notin> {CHR 0x22, CHR 0x5C, CHR 0x08, CHR 0x0C, CHR 0x0A, CHR 0x0D, CHR 0x09}"
        "(of_char c :: nat) < 32"
    | (plain) "c \<notin> {CHR 0x22, CHR 0x5C, CHR 0x08, CHR 0x0C, CHR 0x0A, CHR 0x0D, CHR 0x09}"
        "\<not> (of_char c :: nat) < 32"
    by blast
  then show ?thesis
  proof cases
    case special
    with assms show ?thesis
      by (auto simp: escape_char_def unescape_def)
  next
    case control
    with assms hex4_control [of "of_char c"] utf8_ascii [of c] show ?thesis
      by (simp add: escape_char_def)
  next
    case plain
    with assms show ?thesis
      by (simp add: escape_char_def)
  qed
qed

lemma parse_chars_quote_body:
  "parse_chars (concat (map escape_char s) @ CHR 0x22 # rest) = Some (s, rest)"
  by (induction s) (simp_all add: parse_chars_escape)

lemma skip_ws_no_ws: "\<not> is_ws c \<Longrightarrow> skip_ws (c # cs) = c # cs"
  by (simp add: skip_ws_def)

lemma is_digit_head: "is_digit c \<Longrightarrow> number_start c"
  by (auto simp: is_digit_def is_ws_def number_start_def)

lemma minus_head: "number_start (CHR ''-'')"
  by (simp add: is_ws_def number_start_def)

lemma show_number_head: "\<exists>c cs. show_number i = c # cs \<and> number_start c"
proof (cases "i < 0")
  case True
  then show ?thesis
    by (simp add: show_number_def minus_head)
next
  case False
  obtain c cs where d: "digits (nat i) = c # cs"
    using digits_nonempty [of "nat i"] by (cases "digits (nat i)") auto
  with digits_all_digit [of "nat i"] have "number_start c"
    by (simp add: is_digit_head)
  with False d show ?thesis
    by (simp add: show_number_def)
qed

lemma number_start_value_start: "number_start c \<Longrightarrow> value_start c"
  by (simp add: number_start_def value_start_def)

lemma stringify_head: "integral v \<Longrightarrow> \<exists>c cs. JSON_stringify v = c # cs \<and> value_start c"
proof (cases v)
  case (JNumber i)
  from show_number_head [of i] obtain c cs where
    "show_number i = c # cs" "number_start c"
    by blast
  with JNumber show ?thesis
    by (simp add: number_start_value_start)
qed (simp_all add: value_start_def is_ws_def quote_def)

lemma stringify_nonempty: "integral v \<Longrightarrow> 0 < length (JSON_stringify v)"
  using stringify_head [of v] by auto

lemma parse_value_null: "parse_value (Suc n) (''null'' @ rest) = Some (JNull, rest)"
  by (simp add: skip_ws_def is_ws_def literal_def)

lemma parse_value_true: "parse_value (Suc n) (''true'' @ rest) = Some (JBool True, rest)"
  by (simp add: skip_ws_def is_ws_def literal_def)

lemma parse_value_false: "parse_value (Suc n) (''false'' @ rest) = Some (JBool False, rest)"
  by (simp add: skip_ws_def is_ws_def literal_def)

lemma parse_value_number:
  assumes "delimited rest"
  shows "parse_value (Suc n) (show_number i @ rest) = Some (JNumber i, rest)"
proof -
  from show_number_head [of i] obtain c cs where
    s: "show_number i = c # cs" and c: "number_start c"
    by blast
  from c
  have h: "\<not> is_ws c \<and> c \<noteq> CHR ''n'' \<and> c \<noteq> CHR ''t'' \<and> c \<noteq> CHR ''f'' \<and> c \<noteq> CHR 0x22 \<and>
     c \<noteq> CHR ''['' \<and> c \<noteq> CHR ''{''"
    by (simp add: number_start_def)
  from parse_number_show [OF assms, of i] s
  have "parse_number (c # cs @ rest) = Some (JNumber i, rest)"
    by simp
  with h s show ?thesis
    by (simp add: skip_ws_no_ws)
qed

lemma parse_value_string: "parse_value (Suc n) (quote s @ rest) = Some (JString s, rest)"
  by (simp add: quote_def skip_ws_def is_ws_def parse_chars_quote_body)

lemma parse_value_array_empty: "parse_value (Suc n) (''[]'' @ rest) = Some (JArray [], rest)"
  by (simp add: skip_ws_def is_ws_def)

lemma parse_value_object_empty: "parse_value (Suc n) (''{}'' @ rest) = Some (JObject [], rest)"
  by (simp add: skip_ws_def is_ws_def)

lemma parse_value_array:
  "value_start c \<Longrightarrow>
   parse_value (Suc n) (CHR ''['' # c # cs) =
     map_option (\<lambda>(vs, rest). (JArray vs, rest)) (parse_elements n (c # cs))"
  by (simp add: skip_ws_def is_ws_def value_start_def)

lemma parse_value_object:
  "value_start c \<Longrightarrow>
   parse_value (Suc n) (CHR ''{'' # c # cs) =
     map_option (\<lambda>(kvs, rest). (JObject kvs, rest)) (parse_members n (c # cs))"
  by (simp add: skip_ws_def is_ws_def value_start_def)

lemma parse_elements_last:
  "parse_value n cs = Some (v, CHR '']'' # rest) \<Longrightarrow> parse_elements (Suc n) cs = Some ([v], rest)"
  by (simp add: skip_ws_def is_ws_def)

lemma parse_elements_more:
  "parse_value n cs = Some (v, CHR '','' # rest) \<Longrightarrow>
   parse_elements (Suc n) cs = map_option (\<lambda>(vs, r). (v # vs, r)) (parse_elements n rest)"
  by (simp add: skip_ws_def is_ws_def)

lemma parse_members_last:
  "parse_value n cs = Some (v, CHR ''}'' # rest) \<Longrightarrow>
   parse_members (Suc n) (quote k @ CHR '':'' # cs) = Some ([(k, v)], rest)"
  by (simp add: quote_def skip_ws_def is_ws_def parse_chars_quote_body)

lemma parse_members_more:
  "parse_value n cs = Some (v, CHR '','' # rest) \<Longrightarrow>
   parse_members (Suc n) (quote k @ CHR '':'' # cs) =
     map_option (\<lambda>(kvs, r). ((k, v) # kvs, r)) (parse_members n rest)"
  by (simp add: quote_def skip_ws_def is_ws_def parse_chars_quote_body)

declare parse_value.simps [simp del] parse_elements.simps [simp del] parse_members.simps [simp del]

lemma stringify_object:
  "JSON_stringify (JObject kvs) = CHR ''{'' # commas (map member kvs) @ ''}''"
proof -
  have "(\<lambda>(k, v). quote k @ CHR '':'' # JSON_stringify v) = member"
    by (simp add: fun_eq_iff member_def)
  then show ?thesis
    by simp
qed

lemma commas_Cons: "commas (x # xs) = (if xs = [] then x else x @ CHR '','' # commas xs)"
  by (cases xs) simp_all

lemma commas_stringify_head:
  assumes "vs \<noteq> []" "list_all integral vs"
  shows "\<exists>c cs. commas (map JSON_stringify vs) = c # cs \<and> value_start c"
proof -
  from assms obtain v ws where vs: "vs = v # ws" and "integral v"
    by (cases vs) auto
  from stringify_head [OF this(2)] obtain c cs where "JSON_stringify v = c # cs" "value_start c"
    by blast
  with vs show ?thesis
    by (simp add: commas_Cons)
qed

lemma commas_member_head:
  "kvs \<noteq> [] \<Longrightarrow> \<exists>cs. commas (map member kvs) = CHR 0x22 # cs"
  by (cases kvs) (simp_all add: commas_Cons member_def quote_def)

lemma value_start_quote: "value_start (CHR 0x22)"
  by (simp add: value_start_def is_ws_def)

lemma delimited_simps:
  "delimited (CHR '','' # cs)" "delimited (CHR '']'' # cs)" "delimited (CHR ''}'' # cs)"
  by (simp_all add: delimited_def)

lemma parse_elements_roundtrip:
  assumes IH: "\<And>v n rest. v \<in> set vs \<Longrightarrow> delimited rest \<Longrightarrow> length (JSON_stringify v) \<le> n \<Longrightarrow>
     parse_value n (JSON_stringify v @ rest) = Some (v, rest)"
    and ne: "\<And>v. v \<in> set vs \<Longrightarrow> 0 < length (JSON_stringify v)"
  shows "vs \<noteq> [] \<Longrightarrow> length (commas (map JSON_stringify vs)) < n \<Longrightarrow>
     parse_elements n (commas (map JSON_stringify vs) @ CHR '']'' # rest) = Some (vs, rest)"
  using IH ne
proof (induction vs arbitrary: n)
  case Nil
  then show ?case by simp
next
  case (Cons v ws)
  note val = Cons.prems(3) [of v, simplified]
  from Cons.prems(2) obtain m where n: "n = Suc m"
    by (cases n) auto
  show ?case
  proof (cases "ws = []")
    case True
    with Cons.prems(2) n have "length (JSON_stringify v) \<le> m"
      by simp
    then have "parse_value m (JSON_stringify v @ CHR '']'' # rest) = Some (v, CHR '']'' # rest)"
      by (simp add: val delimited_simps)
    with True n show ?thesis
      by (simp add: parse_elements_last)
  next
    case False
    let ?tail = "commas (map JSON_stringify ws) @ CHR '']'' # rest"
    from False Cons.prems(2) n Cons.prems(4) [of v]
    have len: "length (JSON_stringify v) \<le> m" "length (commas (map JSON_stringify ws)) < m"
      by (simp_all add: commas_Cons)
    from len(1) have "parse_value m (JSON_stringify v @ CHR '','' # ?tail) = Some (v, CHR '','' # ?tail)"
      by (simp add: val delimited_simps)
    then have "parse_elements (Suc m) (JSON_stringify v @ CHR '','' # ?tail) =
        map_option (\<lambda>(vs, r). (v # vs, r)) (parse_elements m ?tail)"
      by (rule parse_elements_more)
    moreover have "parse_elements m ?tail = Some (ws, rest)"
      using False len(2)
    proof (rule Cons.IH)
      fix w n rest
      assume "w \<in> set ws" "delimited rest" "length (JSON_stringify w) \<le> n"
      with Cons.prems(3) [of w rest n] show "parse_value n (JSON_stringify w @ rest) = Some (w, rest)"
        by simp
    next
      fix w
      assume "w \<in> set ws"
      with Cons.prems(4) [of w] show "0 < length (JSON_stringify w)"
        by simp
    qed
    ultimately show ?thesis
      using False n by (simp add: commas_Cons)
  qed
qed

lemma parse_members_roundtrip:
  assumes IH: "\<And>kv n rest. kv \<in> set kvs \<Longrightarrow> delimited rest \<Longrightarrow>
     length (JSON_stringify (snd kv)) \<le> n \<Longrightarrow>
     parse_value n (JSON_stringify (snd kv) @ rest) = Some (snd kv, rest)"
  shows "kvs \<noteq> [] \<Longrightarrow> length (commas (map member kvs)) < n \<Longrightarrow>
     parse_members n (commas (map member kvs) @ CHR ''}'' # rest) = Some (kvs, rest)"
  using IH
proof (induction kvs arbitrary: n)
  case Nil
  then show ?case by simp
next
  case (Cons kv ws)
  let ?k = "fst kv" and ?v = "snd kv"
  from Cons.prems(2) obtain m where n: "n = Suc m"
    by (cases n) auto
  have mk: "member kv = quote ?k @ CHR '':'' # JSON_stringify ?v"
    by (simp add: member_def)
  have val: "\<And>n rest. delimited rest \<Longrightarrow> length (JSON_stringify ?v) \<le> n \<Longrightarrow>
     parse_value n (JSON_stringify ?v @ rest) = Some (?v, rest)"
    using Cons.prems(3) [of kv] by simp
  show ?case
  proof (cases "ws = []")
    case True
    with Cons.prems(2) n have "length (JSON_stringify ?v) \<le> m"
      by (simp add: mk)
    then have "parse_value m (JSON_stringify ?v @ CHR ''}'' # rest) = Some (?v, CHR ''}'' # rest)"
      by (simp add: val delimited_simps)
    then have "parse_members (Suc m) (quote ?k @ CHR '':'' # JSON_stringify ?v @ CHR ''}'' # rest) =
        Some ([(?k, ?v)], rest)"
      by (rule parse_members_last)
    with True n show ?thesis
      by (simp add: mk)
  next
    case False
    let ?tail = "commas (map member ws) @ CHR ''}'' # rest"
    from False Cons.prems(2) n
    have len: "length (JSON_stringify ?v) \<le> m" "length (commas (map member ws)) < m"
      by (simp_all add: commas_Cons mk)
    from len(1) have "parse_value m (JSON_stringify ?v @ CHR '','' # ?tail) = Some (?v, CHR '','' # ?tail)"
      by (simp add: val delimited_simps)
    then have "parse_members (Suc m) (quote ?k @ CHR '':'' # JSON_stringify ?v @ CHR '','' # ?tail) =
        map_option (\<lambda>(kvs, r). ((?k, ?v) # kvs, r)) (parse_members m ?tail)"
      by (rule parse_members_more)
    moreover have "parse_members m ?tail = Some (ws, rest)"
      using False len(2) by (rule Cons.IH) (simp add: Cons.prems(3))
    ultimately show ?thesis
      using False n by (simp add: commas_Cons mk)
  qed
qed

lemma parse_value_roundtrip:
  "integral v \<Longrightarrow> delimited rest \<Longrightarrow> length (JSON_stringify v) \<le> n \<Longrightarrow>
   parse_value n (JSON_stringify v @ rest) = Some (v, rest)"
proof (induction v arbitrary: n rest)
  case JNull
  then obtain m where "n = Suc m" by (cases n) auto
  then show ?case using parse_value_null [of m rest] by simp
next
  case (JBool b)
  with stringify_nonempty [of "JBool b"] obtain m where "n = Suc m" by (cases n) auto
  then show ?case using parse_value_true [of m rest] parse_value_false [of m rest] by simp
next
  case (JNumber i)
  with stringify_nonempty [of "JNumber i"] obtain m where "n = Suc m" by (cases n) auto
  with JNumber.prems(2) show ?case by (simp add: parse_value_number)
next
  case (JFraction literal_text)
  then show ?case by simp
next
  case (JString s)
  with stringify_nonempty [of "JString s"] obtain m where "n = Suc m" by (cases n) auto
  then show ?case using parse_value_string [of m s rest] by simp
next
  case (JArray vs)
  from JArray.prems(3) obtain m where n: "n = Suc m" by (cases n) auto
  from JArray.prems(1) have int: "list_all integral vs"
    by simp
  show ?case
  proof (cases "vs = []")
    case True
    with n show ?thesis using parse_value_array_empty [of m rest] by simp
  next
    case False
    from commas_stringify_head [OF False int] obtain c cs where
      h: "commas (map JSON_stringify vs) = c # cs" "value_start c"
      by blast
    from JArray.prems(3) n have len: "length (commas (map JSON_stringify vs)) < m"
      by simp
    have "parse_elements m (commas (map JSON_stringify vs) @ CHR '']'' # rest) = Some (vs, rest)"
    proof (rule parse_elements_roundtrip [OF _ _ False len])
      fix v n rest
      assume a: "v \<in> set vs" "delimited rest" "length (JSON_stringify v) \<le> n"
      from int a(1) have "integral v"
        by (simp add: list_all_iff)
      from JArray.IH [OF a(1) this a(2) a(3)]
      show "parse_value n (JSON_stringify v @ rest) = Some (v, rest)" .
    next
      fix v
      assume "v \<in> set vs"
      with int have "integral v"
        by (simp add: list_all_iff)
      then show "0 < length (JSON_stringify v)"
        by (rule stringify_nonempty)
    qed
    with h have "parse_elements m (c # cs @ CHR '']'' # rest) = Some (vs, rest)"
      by simp
    with h n parse_value_array [of c m "cs @ CHR '']'' # rest"] show ?thesis
      by simp
  qed
next
  case (JObject kvs)
  from JObject.prems(3) obtain m where n: "n = Suc m" by (cases n) auto
  from JObject.prems(1) have int: "list_all (\<lambda>kv. integral (snd kv)) kvs"
    by simp
  show ?case
  proof (cases "kvs = []")
    case True
    with n show ?thesis using parse_value_object_empty [of m rest] by simp
  next
    case False
    from commas_member_head [OF False] obtain cs where
      h: "commas (map member kvs) = CHR 0x22 # cs"
      by blast
    from JObject.prems(3) n have len: "length (commas (map member kvs)) < m"
      by (simp add: stringify_object del: JSON_stringify.simps(7))
    have "parse_members m (commas (map member kvs) @ CHR ''}'' # rest) = Some (kvs, rest)"
    proof (rule parse_members_roundtrip [OF _ False len])
      fix kv n rest
      assume a: "kv \<in> set kvs" "delimited rest" "length (JSON_stringify (snd kv)) \<le> n"
      have s: "snd kv \<in> Basic_BNFs.snds kv"
        by (cases kv) simp
      from int a(1) have "integral (snd kv)"
        by (simp add: list_all_iff)
      from JObject.IH [OF a(1) s this a(2) a(3)]
      show "parse_value n (JSON_stringify (snd kv) @ rest) = Some (snd kv, rest)" .
    qed
    with h have "parse_members m (CHR 0x22 # cs @ CHR ''}'' # rest) = Some (kvs, rest)"
      by simp
    with h n parse_value_object [OF value_start_quote, of m "cs @ CHR ''}'' # rest"] show ?thesis
      by (simp add: stringify_object del: JSON_stringify.simps(7))
  qed
qed

theorem JSON_roundtrip: "integral v \<Longrightarrow> JSON_parse (JSON_stringify v) = Some v"
  using parse_value_roundtrip [of v "[]" "length (JSON_stringify v)"]
  by (simp add: JSON_parse_def delimited_def skip_ws_def)

section \<open>The fuel of \<open>JSON_parse\<close> is enough\<close>

text \<open>
  More fuel never changes a result, and a value that parses with some fuel parses with as much
  fuel as it has characters: \<open>JSON_parse\<close> is \<open>None\<close> only on a text that no amount of fuel
  parses.
\<close>

lemma skip_ws_length: "length (skip_ws cs) \<le> length cs"
  by (simp add: skip_ws_def length_dropWhile_le)

lemma parse_chars_shorter: "parse_chars cs = Some (s, rest) \<Longrightarrow> length rest < length cs"
proof (induction cs arbitrary: s rest rule: parse_chars.induct)
  case 1
  then show ?case by simp
next
  case (2 c cs)
  then show ?case
    by (fastforce split: if_splits list.splits option.splits)
qed

lemma parse_digits_shorter: "parse_digits acc cs = (n, rest) \<Longrightarrow> length rest \<le> length cs"
  by (induction acc cs arbitrary: n rest rule: parse_digits.induct)
     (fastforce split: if_splits)+

lemma parse_nat_shorter: "parse_nat cs = Some (n, rest) \<Longrightarrow> length rest < length cs"
  by (cases cs) (auto simp: parse_nat_def split: if_splits dest!: parse_digits_shorter)

lemma digits1_shorter: "digits1 cs = Some (ds, rest) \<Longrightarrow> length rest \<le> length cs"
  by (auto simp: digits1_def length_dropWhile_le split: if_splits)

lemma parse_frac_shorter: "parse_frac cs = Some (f, rest) \<Longrightarrow> length rest \<le> length cs"
  by (cases cs) (auto simp: parse_frac_def split: if_splits dest!: digits1_shorter)

lemma parse_exp_shorter: "parse_exp cs = Some (e, rest) \<Longrightarrow> length rest \<le> length cs"
  by (cases cs) (auto simp: parse_exp_def split: if_splits list.splits dest!: digits1_shorter)

lemma parse_number_shorter:
  assumes "parse_number cs = Some (v, rest)"
  shows "length rest < length cs"
proof -
  from assms obtain c cs' n r0 f r1 e where
    cs: "cs = c # cs'" and
    nat: "(if c = CHR ''-'' then parse_nat cs' else parse_nat cs) = Some (n, r0)" and
    frac: "parse_frac r0 = Some (f, r1)" and
    exp: "parse_exp r1 = Some (e, rest)"
    by (cases cs) (auto simp: parse_number_def split: option.splits if_splits)
  from nat cs have "length r0 < length cs"
    by (auto split: if_splits dest!: parse_nat_shorter)
  with parse_frac_shorter [OF frac] parse_exp_shorter [OF exp] show ?thesis
    by simp
qed

lemma literal_shorter:
  "literal word v cs = Some (x, rest) \<Longrightarrow> word \<noteq> [] \<Longrightarrow> length rest < length cs"
proof -
  assume a: "literal word v cs = Some (x, rest)" and w: "word \<noteq> []"
  from a have t: "take (length word) cs = word" and r: "rest = drop (length word) cs"
    by (auto simp: literal_def split: if_splits)
  from arg_cong [OF t, of length] have "length word \<le> length cs"
    by simp
  with w r show ?thesis
    by (cases word) auto
qed

lemma parse_value_scalar:
  "skip_ws cs = c # cs' \<Longrightarrow> c \<noteq> CHR ''['' \<Longrightarrow> c \<noteq> CHR ''{'' \<Longrightarrow>
   parse_value (Suc n) cs = parse_value (Suc 0) cs"
  by (simp add: parse_value.simps)

lemma parse_value_empty:
  "skip_ws cs = [] \<Longrightarrow> parse_value n cs = None"
  by (cases n) (simp_all add: parse_value.simps)

lemma parse_value_bracket:
  "skip_ws cs = CHR ''['' # cs' \<Longrightarrow>
   parse_value (Suc n) cs =
     (case skip_ws cs' of
        [] \<Rightarrow> None
      | d # rest \<Rightarrow>
          if d = CHR '']'' then Some (JArray [], rest)
          else map_option (\<lambda>(vs, rest). (JArray vs, rest)) (parse_elements n cs'))"
  by (simp add: parse_value.simps)

lemma parse_value_brace:
  "skip_ws cs = CHR ''{'' # cs' \<Longrightarrow>
   parse_value (Suc n) cs =
     (case skip_ws cs' of
        [] \<Rightarrow> None
      | d # rest \<Rightarrow>
          if d = CHR ''}'' then Some (JObject [], rest)
          else map_option (\<lambda>(kvs, rest). (JObject kvs, rest)) (parse_members n cs'))"
  by (simp add: parse_value.simps)

lemma parse_elements_SomeE:
  assumes "parse_elements (Suc n) cs = Some (vs, rest)"
  obtains (more) v r1 r2 ws where
      "parse_value n cs = Some (v, r1)" "skip_ws r1 = CHR '','' # r2"
      "parse_elements n r2 = Some (ws, rest)" "vs = v # ws"
    | (last) v r1 where
      "parse_value n cs = Some (v, r1)" "skip_ws r1 = CHR '']'' # rest" "vs = [v]"
  using assms
  by (auto simp: parse_elements.simps split: option.splits list.splits if_splits)

lemma parse_elements_moreI:
  "parse_value n cs = Some (v, r1) \<Longrightarrow> skip_ws r1 = CHR '','' # r2 \<Longrightarrow>
   parse_elements n r2 = Some (ws, rest) \<Longrightarrow>
   parse_elements (Suc n) cs = Some (v # ws, rest)"
  by (simp add: parse_elements.simps)

lemma parse_elements_lastI:
  "parse_value n cs = Some (v, r1) \<Longrightarrow> skip_ws r1 = CHR '']'' # rest \<Longrightarrow>
   parse_elements (Suc n) cs = Some ([v], rest)"
  by (simp add: parse_elements.simps)

lemma parse_members_SomeE:
  assumes "parse_members (Suc n) cs = Some (kvs, rest)"
  obtains (more) cs' k r0 r1 v r2 r3 ws where
      "skip_ws cs = CHR 0x22 # cs'" "parse_chars cs' = Some (k, r0)"
      "skip_ws r0 = CHR '':'' # r1" "parse_value n r1 = Some (v, r2)"
      "skip_ws r2 = CHR '','' # r3" "parse_members n r3 = Some (ws, rest)" "kvs = (k, v) # ws"
    | (last) cs' k r0 r1 v r2 where
      "skip_ws cs = CHR 0x22 # cs'" "parse_chars cs' = Some (k, r0)"
      "skip_ws r0 = CHR '':'' # r1" "parse_value n r1 = Some (v, r2)"
      "skip_ws r2 = CHR ''}'' # rest" "kvs = [(k, v)]"
  using assms
  by (auto simp: parse_members.simps split: option.splits list.splits if_splits)

lemma parse_members_moreI:
  "skip_ws cs = CHR 0x22 # cs' \<Longrightarrow> parse_chars cs' = Some (k, r0) \<Longrightarrow>
   skip_ws r0 = CHR '':'' # r1 \<Longrightarrow> parse_value n r1 = Some (v, r2) \<Longrightarrow>
   skip_ws r2 = CHR '','' # r3 \<Longrightarrow> parse_members n r3 = Some (ws, rest) \<Longrightarrow>
   parse_members (Suc n) cs = Some ((k, v) # ws, rest)"
  by (simp add: parse_members.simps)

lemma parse_members_lastI:
  "skip_ws cs = CHR 0x22 # cs' \<Longrightarrow> parse_chars cs' = Some (k, r0) \<Longrightarrow>
   skip_ws r0 = CHR '':'' # r1 \<Longrightarrow> parse_value n r1 = Some (v, r2) \<Longrightarrow>
   skip_ws r2 = CHR ''}'' # rest \<Longrightarrow>
   parse_members (Suc n) cs = Some ([(k, v)], rest)"
  by (simp add: parse_members.simps)

lemma skip_ws_Cons_length: "skip_ws cs = c # cs' \<Longrightarrow> length cs' < length cs"
  using skip_ws_length [of cs] by simp

lemma parse_value_one_shorter:
  assumes "parse_value (Suc 0) cs = Some (v, rest)"
  shows "length rest < length cs"
proof (cases "skip_ws cs")
  case Nil
  with assms show ?thesis
    by (simp add: parse_value_empty)
next
  case (Cons c cs')
  note len = skip_ws_Cons_length [OF Cons]
  have whole: "length (c # cs') \<le> length cs"
    using skip_ws_length [of cs] Cons by simp
  consider (null) "c = CHR ''n''" | (true) "c = CHR ''t''" | (false) "c = CHR ''f''"
    | (string) "c = CHR 0x22" | (array) "c = CHR ''[''" | (object) "c = CHR ''{''"
    | (number) "c \<noteq> CHR ''n''" "c \<noteq> CHR ''t''" "c \<noteq> CHR ''f''" "c \<noteq> CHR 0x22"
        "c \<noteq> CHR ''[''" "c \<noteq> CHR ''{''"
    by blast
  then show ?thesis
  proof cases
    case null
    with assms Cons have "literal ''null'' JNull (c # cs') = Some (v, rest)"
      by (simp add: parse_value.simps)
    from literal_shorter [OF this] whole show ?thesis by simp
  next
    case true
    with assms Cons have "literal ''true'' (JBool True) (c # cs') = Some (v, rest)"
      by (simp add: parse_value.simps)
    from literal_shorter [OF this] whole show ?thesis by simp
  next
    case false
    with assms Cons have "literal ''false'' (JBool False) (c # cs') = Some (v, rest)"
      by (simp add: parse_value.simps)
    from literal_shorter [OF this] whole show ?thesis by simp
  next
    case string
    with assms Cons obtain s where "parse_chars cs' = Some (s, rest)"
      by (auto simp: parse_value.simps)
    from parse_chars_shorter [OF this] len show ?thesis by simp
  next
    case array
    with assms Cons obtain d where "skip_ws cs' = d # rest"
      by (auto simp: parse_value.simps parse_elements.simps split: list.splits if_splits)
    from skip_ws_Cons_length [OF this] len show ?thesis by simp
  next
    case object
    with assms Cons obtain d where "skip_ws cs' = d # rest"
      by (auto simp: parse_value.simps parse_members.simps split: list.splits if_splits)
    from skip_ws_Cons_length [OF this] len show ?thesis by simp
  next
    case number
    with assms Cons have "parse_number (c # cs') = Some (v, rest)"
      by (simp add: parse_value.simps)
    from parse_number_shorter [OF this] whole show ?thesis by simp
  qed
qed

lemma parse_value_arrayI:
  "skip_ws cs = CHR ''['' # cs' \<Longrightarrow> skip_ws cs' = d # r \<Longrightarrow> d \<noteq> CHR '']'' \<Longrightarrow>
   parse_elements n cs' = Some (vs, rest) \<Longrightarrow>
   parse_value (Suc n) cs = Some (JArray vs, rest)"
  by (simp add: parse_value_bracket)

lemma parse_value_objectI:
  "skip_ws cs = CHR ''{'' # cs' \<Longrightarrow> skip_ws cs' = d # r \<Longrightarrow> d \<noteq> CHR ''}'' \<Longrightarrow>
   parse_members n cs' = Some (kvs, rest) \<Longrightarrow>
   parse_value (Suc n) cs = Some (JObject kvs, rest)"
  by (simp add: parse_value_brace)

lemma parse_value_SomeE:
  assumes "parse_value (Suc n) cs = Some (v, rest)"
  obtains (fixed) "\<And>m. parse_value (Suc m) cs = Some (v, rest)"
    | (array) cs' d r vs where
      "skip_ws cs = CHR ''['' # cs'" "skip_ws cs' = d # r" "d \<noteq> CHR '']''"
      "parse_elements n cs' = Some (vs, rest)" "v = JArray vs"
    | (object) cs' d r kvs where
      "skip_ws cs = CHR ''{'' # cs'" "skip_ws cs' = d # r" "d \<noteq> CHR ''}''"
      "parse_members n cs' = Some (kvs, rest)" "v = JObject kvs"
proof (cases "skip_ws cs")
  case Nil
  with assms show ?thesis
    by (simp add: parse_value_empty)
next
  case (Cons c cs')
  consider (arr) "c = CHR ''[''" | (obj) "c = CHR ''{''" | (other) "c \<noteq> CHR ''[''" "c \<noteq> CHR ''{''"
    by blast
  then show ?thesis
  proof cases
    case other
    from parse_value_scalar [OF Cons other] assms
    have "\<And>m. parse_value (Suc m) cs = Some (v, rest)"
      by metis
    then show ?thesis by (rule fixed)
  next
    case arr
    note step = parse_value_bracket [OF Cons [unfolded arr]]
    show ?thesis
    proof (cases "skip_ws cs'")
      case Nil
      with assms step show ?thesis by simp
    next
      case (Cons d r)
      show ?thesis
      proof (cases "d = CHR '']''")
        case True
        with assms step Cons have "\<And>m. parse_value (Suc m) cs = Some (v, rest)"
          by simp
        then show ?thesis by (rule fixed)
      next
        case False
        with assms step [of n] Cons obtain vs where
          "parse_elements n cs' = Some (vs, rest)" "v = JArray vs"
          by auto
        with \<open>skip_ws cs = c # cs'\<close> arr Cons False show ?thesis
          by (intro array) simp_all
      qed
    qed
  next
    case obj
    note step = parse_value_brace [OF Cons [unfolded obj]]
    show ?thesis
    proof (cases "skip_ws cs'")
      case Nil
      with assms step show ?thesis by simp
    next
      case (Cons d r)
      show ?thesis
      proof (cases "d = CHR ''}''")
        case True
        with assms step Cons have "\<And>m. parse_value (Suc m) cs = Some (v, rest)"
          by simp
        then show ?thesis by (rule fixed)
      next
        case False
        with assms step [of n] Cons obtain kvs where
          "parse_members n cs' = Some (kvs, rest)" "v = JObject kvs"
          by auto
        with \<open>skip_ws cs = c # cs'\<close> obj Cons False show ?thesis
          by (intro object) simp_all
      qed
    qed
  qed
qed

lemma fuel_Suc:
  "(\<forall>cs r. parse_value n cs = Some r \<longrightarrow> parse_value (Suc n) cs = Some r) \<and>
   (\<forall>cs e. parse_elements n cs = Some e \<longrightarrow> parse_elements (Suc n) cs = Some e) \<and>
   (\<forall>cs m. parse_members n cs = Some m \<longrightarrow> parse_members (Suc n) cs = Some m)"
proof (induction n)
  case 0
  show ?case
    by (simp add: parse_value.simps parse_elements.simps parse_members.simps)
next
  case (Suc n)
  then have val: "\<And>cs r. parse_value n cs = Some r \<Longrightarrow> parse_value (Suc n) cs = Some r"
    and els: "\<And>cs e. parse_elements n cs = Some e \<Longrightarrow> parse_elements (Suc n) cs = Some e"
    and mem: "\<And>cs m. parse_members n cs = Some m \<Longrightarrow> parse_members (Suc n) cs = Some m"
    by blast+
  have "parse_value (Suc (Suc n)) cs = Some r" if a: "parse_value (Suc n) cs = Some r" for cs r
  proof -
    obtain v rest where r: "r = (v, rest)"
      by (cases r)
    from a [unfolded r] show ?thesis
    proof (cases rule: parse_value_SomeE)
      case fixed
      with r show ?thesis by simp
    next
      case (array cs' d r' vs)
      from parse_value_arrayI [OF array(1-3) els [OF array(4)]] array(5) r show ?thesis
        by simp
    next
      case (object cs' d r' kvs)
      from parse_value_objectI [OF object(1-3) mem [OF object(4)]] object(5) r show ?thesis
        by simp
    qed
  qed
  moreover
  have "parse_elements (Suc (Suc n)) cs = Some e" if a: "parse_elements (Suc n) cs = Some e" for cs e
  proof -
    obtain vs rest where e: "e = (vs, rest)"
      by (cases e)
    from a [unfolded e] show ?thesis
    proof (cases rule: parse_elements_SomeE)
      case (more v r1 r2 ws)
      from parse_elements_moreI [OF val [OF more(1)] more(2) els [OF more(3)]] more(4) e
      show ?thesis by simp
    next
      case (last v r1)
      from parse_elements_lastI [OF val [OF last(1)] last(2)] last(3) e
      show ?thesis by simp
    qed
  qed
  moreover
  have "parse_members (Suc (Suc n)) cs = Some m" if a: "parse_members (Suc n) cs = Some m" for cs m
  proof -
    obtain kvs rest where m: "m = (kvs, rest)"
      by (cases m)
    from a [unfolded m] show ?thesis
    proof (cases rule: parse_members_SomeE)
      case (more cs' k r0 r1 v r2 r3 ws)
      from parse_members_moreI [OF more(1-3) val [OF more(4)] more(5) mem [OF more(6)]] more(7) m
      show ?thesis by simp
    next
      case (last cs' k r0 r1 v r2)
      from parse_members_lastI [OF last(1-3) val [OF last(4)] last(5)] last(6) m
      show ?thesis by simp
    qed
  qed
  ultimately show ?case
    by blast
qed

lemma parse_value_Suc: "parse_value n cs = Some r \<Longrightarrow> parse_value (Suc n) cs = Some r"
  using fuel_Suc [of n] by blast

lemma parse_elements_Suc: "parse_elements n cs = Some e \<Longrightarrow> parse_elements (Suc n) cs = Some e"
  using fuel_Suc [of n] by blast

lemma parse_members_Suc: "parse_members n cs = Some m \<Longrightarrow> parse_members (Suc n) cs = Some m"
  using fuel_Suc [of n] by blast

lemma parse_value_mono: "n \<le> m \<Longrightarrow> parse_value n cs = Some r \<Longrightarrow> parse_value m cs = Some r"
  by (induction rule: dec_induct) (simp_all add: parse_value_Suc)

lemma parse_elements_mono:
  "n \<le> m \<Longrightarrow> parse_elements n cs = Some e \<Longrightarrow> parse_elements m cs = Some e"
  by (induction rule: dec_induct) (simp_all add: parse_elements_Suc)

lemma parse_members_mono:
  "n \<le> m \<Longrightarrow> parse_members n cs = Some e \<Longrightarrow> parse_members m cs = Some e"
  by (induction rule: dec_induct) (simp_all add: parse_members_Suc)

lemma fuel_bound:
  "(\<forall>cs v rest. parse_value n cs = Some (v, rest) \<longrightarrow>
      length rest < length cs \<and> parse_value (length cs - length rest) cs = Some (v, rest)) \<and>
   (\<forall>cs vs rest. parse_elements n cs = Some (vs, rest) \<longrightarrow>
      length rest < length cs \<and> parse_elements (length cs - length rest) cs = Some (vs, rest)) \<and>
   (\<forall>cs kvs rest. parse_members n cs = Some (kvs, rest) \<longrightarrow>
      length rest < length cs \<and> parse_members (length cs - length rest) cs = Some (kvs, rest))"
proof (induction n)
  case 0
  show ?case
    by (simp add: parse_value.simps parse_elements.simps parse_members.simps)
next
  case (Suc n)
  then have val: "\<And>cs v rest. parse_value n cs = Some (v, rest) \<Longrightarrow>
      length rest < length cs \<and> parse_value (length cs - length rest) cs = Some (v, rest)"
    and els: "\<And>cs vs rest. parse_elements n cs = Some (vs, rest) \<Longrightarrow>
      length rest < length cs \<and> parse_elements (length cs - length rest) cs = Some (vs, rest)"
    and mem: "\<And>cs kvs rest. parse_members n cs = Some (kvs, rest) \<Longrightarrow>
      length rest < length cs \<and> parse_members (length cs - length rest) cs = Some (kvs, rest)"
    by blast+
  have "length rest < length cs \<and> parse_value (length cs - length rest) cs = Some (v, rest)"
    if a: "parse_value (Suc n) cs = Some (v, rest)" for cs v rest
    using a
  proof (cases rule: parse_value_SomeE)
    case fixed
    from parse_value_one_shorter [OF fixed [of 0]] have l: "length rest < length cs" .
    then obtain m where "length cs - length rest = Suc m"
      by (cases "length cs - length rest") auto
    with l fixed [of m] show ?thesis
      by simp
  next
    case (array cs' d r vs)
    from els [OF array(4)] have l: "length rest < length cs'"
      and p: "parse_elements (length cs' - length rest) cs' = Some (vs, rest)"
      by simp_all
    from skip_ws_Cons_length [OF array(1)] have c: "length cs' < length cs" .
    from parse_value_arrayI [OF array(1-3) p]
    have "parse_value (Suc (length cs' - length rest)) cs = Some (JArray vs, rest)" .
    moreover from l c have "Suc (length cs' - length rest) \<le> length cs - length rest"
      by simp
    ultimately have "parse_value (length cs - length rest) cs = Some (JArray vs, rest)"
      by (rule parse_value_mono [rotated])
    with l c array(5) show ?thesis
      by simp
  next
    case (object cs' d r kvs)
    from mem [OF object(4)] have l: "length rest < length cs'"
      and p: "parse_members (length cs' - length rest) cs' = Some (kvs, rest)"
      by simp_all
    from skip_ws_Cons_length [OF object(1)] have c: "length cs' < length cs" .
    from parse_value_objectI [OF object(1-3) p]
    have "parse_value (Suc (length cs' - length rest)) cs = Some (JObject kvs, rest)" .
    moreover from l c have "Suc (length cs' - length rest) \<le> length cs - length rest"
      by simp
    ultimately have "parse_value (length cs - length rest) cs = Some (JObject kvs, rest)"
      by (rule parse_value_mono [rotated])
    with l c object(5) show ?thesis
      by simp
  qed
  moreover
  have "length rest < length cs \<and> parse_elements (length cs - length rest) cs = Some (vs, rest)"
    if a: "parse_elements (Suc n) cs = Some (vs, rest)" for cs vs rest
    using a
  proof (cases rule: parse_elements_SomeE)
    case (more v r1 r2 ws)
    from val [OF more(1)] have l1: "length r1 < length cs"
      and p1: "parse_value (length cs - length r1) cs = Some (v, r1)"
      by simp_all
    from skip_ws_Cons_length [OF more(2)] have l2: "length r2 < length r1" .
    from els [OF more(3)] have l3: "length rest < length r2"
      and p3: "parse_elements (length r2 - length rest) r2 = Some (ws, rest)"
      by simp_all
    let ?k = "max (length cs - length r1) (length r2 - length rest)"
    have "parse_value ?k cs = Some (v, r1)"
      by (rule parse_value_mono [OF _ p1]) simp
    moreover have "parse_elements ?k r2 = Some (ws, rest)"
      by (rule parse_elements_mono [OF _ p3]) simp
    ultimately have "parse_elements (Suc ?k) cs = Some (v # ws, rest)"
      using more(2) by (intro parse_elements_moreI)
    moreover from l1 l2 l3 have "Suc ?k \<le> length cs - length rest"
      by simp
    ultimately have "parse_elements (length cs - length rest) cs = Some (v # ws, rest)"
      by (rule parse_elements_mono [rotated])
    with l1 l2 l3 more(4) show ?thesis
      by simp
  next
    case (last v r1)
    from val [OF last(1)] have l1: "length r1 < length cs"
      and p1: "parse_value (length cs - length r1) cs = Some (v, r1)"
      by simp_all
    from skip_ws_Cons_length [OF last(2)] have l2: "length rest < length r1" .
    from parse_elements_lastI [OF p1 last(2)]
    have "parse_elements (Suc (length cs - length r1)) cs = Some ([v], rest)" .
    moreover from l1 l2 have "Suc (length cs - length r1) \<le> length cs - length rest"
      by simp
    ultimately have "parse_elements (length cs - length rest) cs = Some ([v], rest)"
      by (rule parse_elements_mono [rotated])
    with l1 l2 last(3) show ?thesis
      by simp
  qed
  moreover
  have "length rest < length cs \<and> parse_members (length cs - length rest) cs = Some (kvs, rest)"
    if a: "parse_members (Suc n) cs = Some (kvs, rest)" for cs kvs rest
    using a
  proof (cases rule: parse_members_SomeE)
    case (more cs' k r0 r1 v r2 r3 ws)
    from skip_ws_Cons_length [OF more(1)] parse_chars_shorter [OF more(2)]
      skip_ws_Cons_length [OF more(3)]
    have l0: "length r1 < length cs"
      by simp
    from val [OF more(4)] have l2: "length r2 < length r1"
      and p2: "parse_value (length r1 - length r2) r1 = Some (v, r2)"
      by simp_all
    from skip_ws_Cons_length [OF more(5)] have l3: "length r3 < length r2" .
    from mem [OF more(6)] have l4: "length rest < length r3"
      and p4: "parse_members (length r3 - length rest) r3 = Some (ws, rest)"
      by simp_all
    let ?k = "max (length r1 - length r2) (length r3 - length rest)"
    have "parse_value ?k r1 = Some (v, r2)"
      by (rule parse_value_mono [OF _ p2]) simp
    moreover have "parse_members ?k r3 = Some (ws, rest)"
      by (rule parse_members_mono [OF _ p4]) simp
    ultimately have "parse_members (Suc ?k) cs = Some ((k, v) # ws, rest)"
      using more(1-3,5) by (intro parse_members_moreI)
    moreover from l0 l2 l3 l4 have "Suc ?k \<le> length cs - length rest"
      by simp
    ultimately have "parse_members (length cs - length rest) cs = Some ((k, v) # ws, rest)"
      by (rule parse_members_mono [rotated])
    with l0 l2 l3 l4 more(7) show ?thesis
      by simp
  next
    case (last cs' k r0 r1 v r2)
    from skip_ws_Cons_length [OF last(1)] parse_chars_shorter [OF last(2)]
      skip_ws_Cons_length [OF last(3)]
    have l0: "length r1 < length cs"
      by simp
    from val [OF last(4)] have l2: "length r2 < length r1"
      and p2: "parse_value (length r1 - length r2) r1 = Some (v, r2)"
      by simp_all
    from skip_ws_Cons_length [OF last(5)] have l3: "length rest < length r2" .
    from parse_members_lastI [OF last(1-3) p2 last(5)]
    have "parse_members (Suc (length r1 - length r2)) cs = Some ([(k, v)], rest)" .
    moreover from l0 l2 l3 have "Suc (length r1 - length r2) \<le> length cs - length rest"
      by simp
    ultimately have "parse_members (length cs - length rest) cs = Some ([(k, v)], rest)"
      by (rule parse_members_mono [rotated])
    with l0 l2 l3 last(6) show ?thesis
      by simp
  qed
  ultimately show ?case
    by blast
qed

theorem JSON_parse_fuel:
  assumes "parse_value n input = Some (v, rest)"
  shows "parse_value (length input) input = Some (v, rest)"
proof -
  from fuel_bound [of n] assms
  have "parse_value (length input - length rest) input = Some (v, rest)"
    by blast
  then show ?thesis
    by (rule parse_value_mono [rotated]) simp
qed

theorem JSON_parse_iff:
  "JSON_parse input = Some v \<longleftrightarrow> (\<exists>n rest. parse_value n input = Some (v, rest) \<and> skip_ws rest = [])"
proof
  assume "JSON_parse input = Some v"
  then have "\<exists>rest. parse_value (length input) input = Some (v, rest) \<and> skip_ws rest = []"
    by (auto simp: JSON_parse_def split: option.splits if_splits)
  then show "\<exists>n rest. parse_value n input = Some (v, rest) \<and> skip_ws rest = []"
    by blast
next
  assume "\<exists>n rest. parse_value n input = Some (v, rest) \<and> skip_ws rest = []"
  then obtain n rest where "parse_value n input = Some (v, rest)" "skip_ws rest = []"
    by blast
  with JSON_parse_fuel [of n input v rest] show "JSON_parse input = Some v"
    by (simp add: JSON_parse_def)
qed

section \<open>Properties of the two effects\<close>

lemma those_as_string: "those (map (as_string \<circ> JString) xs) = Some xs"
  by (induction xs) simp_all

lemma as_CartItem_json: "as_CartItem (CartItem_json item) = Some item"
  by (simp add: CartItem_json_def read_field_def property_def those_as_string)

lemma as_CartItems_json: "as_CartItems (CartItems_json items) = Some items"
  by (induction items) (simp_all add: CartItems_json_def as_CartItem_json)

lemma stringify_CartItems_nonempty: "JSON_stringify (CartItems_json items) \<noteq> []"
  by (simp add: CartItems_json_def)

lemma isArray_CartItems: "Array_isArray (CartItems_json items)"
  by (simp add: CartItems_json_def)

lemma integral_CartItem_json: "integral (CartItem_json item)"
  by (simp add: CartItem_json_def list_all_iff)

lemma integral_CartItems_json: "integral (CartItems_json items)"
  by (simp add: CartItems_json_def list_all_iff integral_CartItem_json)

lemma hydration_of_stored:
  "hydration_effect (Storage (entries(''cartItems'' \<mapsto> JSON_stringify (CartItems_json items)))) =
     Inr \<lparr>setHasMounted = True, setCartItems = Some (CartItems_json items),
          localStorage = Storage (entries(''cartItems'' \<mapsto> JSON_stringify (CartItems_json items))),
          console = []\<rparr>"
  by (simp add: hydration_effect_def getItem_def JSON_roundtrip integral_CartItems_json
      stringify_CartItems_nonempty isArray_CartItems)

lemma parse_not_json: "JSON_parse ''{not json'' = None"
  by code_simp

lemma parse_empty_object: "JSON_parse ''{}'' = Some (JObject [])"
  by code_simp

lemma parse_null: "JSON_parse ''null'' = Some JNull"
  by code_simp

lemma parse_empty: "JSON_parse [] = None"
  by code_simp

lemma parse_one: "JSON_parse ''[1]'' = Some (JArray [JNumber 1])"
  by code_simp

lemma parse_empty_array: "JSON_parse ''[]'' = Some (JArray [])"
  by code_simp

text \<open>
  Claim C7 says that the stored value replaces the state only if it is a well-formed sequence
  of line items, that a malformed entry is deleted, and that no read or parse error leaves the
  hydration path. The stored text \<open>[1]\<close> is an array, so it is passed to \<open>setCartItems\<close>,
  though its element is not a line item; the empty text does not parse, yet it fails the test
  \<open>if (localData)\<close> and stays in the storage; and where storage is disallowed, the read throws
  before the \<open>try\<close> block is entered.
\<close>

theorem hydration_effect_counterexample:
  "hydration_effect (Storage (Map.empty(''cartItems'' \<mapsto> ''[1]''))) =
     Inr \<lparr>setHasMounted = True, setCartItems = Some (JArray [JNumber 1]),
          localStorage = Storage (Map.empty(''cartItems'' \<mapsto> ''[1]'')), console = []\<rparr> \<and>
   as_CartItems (JArray [JNumber 1]) = None \<and>
   JSON_parse [] = None \<and>
   hydration_effect (Storage (Map.empty(''cartItems'' \<mapsto> []))) =
     Inr \<lparr>setHasMounted = True, setCartItems = None,
          localStorage = Storage (Map.empty(''cartItems'' \<mapsto> [])), console = []\<rparr> \<and>
   hydration_effect Denied = Inl SecurityError"
  by (simp add: hydration_effect_def getItem_def parse_one parse_empty)

text \<open>
  Claim C7, amended. With storage available the hydration effect always returns (a parse error
  is a branch of it, nothing is thrown) and sets the mount flag. With no entry or the empty text
  under \<open>cartItems\<close> it leaves the state and the storage alone. With a non-empty text that
  does not parse, or parses to a value that is not an array, it leaves the state alone and
  removes the entry. With a non-empty text that parses to an array it passes the array to
  \<open>setCartItems\<close>, whatever its elements are, and leaves the storage alone. In particular the
  stored texts \<open>{not json\<close>, \<open>{}\<close> and \<open>null\<close> each give an empty store and no entry.
\<close>

theorem hydration_effect_amended:
  "(\<exists>h. hydration_effect (Storage entries) = Inr h \<and> setHasMounted h = True) \<and>
   (entries ''cartItems'' = None \<or> entries ''cartItems'' = Some [] \<longrightarrow>
      hydration_effect (Storage entries) =
        Inr \<lparr>setHasMounted = True, setCartItems = None, localStorage = Storage entries,
             console = []\<rparr>) \<and>
   (entries ''cartItems'' = Some localData \<and> localData \<noteq> [] \<and> JSON_parse localData = None \<longrightarrow>
      hydration_effect (Storage entries) =
        Inr \<lparr>setHasMounted = True, setCartItems = None,
             localStorage = Storage (entries(''cartItems'' := None)), console = [console_error]\<rparr>) \<and>
   (entries ''cartItems'' = Some localData \<and> localData \<noteq> [] \<and>
    JSON_parse localData = Some parsedData \<and> Array_isArray parsedData = False \<longrightarrow>
      hydration_effect (Storage entries) =
        Inr \<lparr>setHasMounted = True, setCartItems = None,
             localStorage = Storage (entries(''cartItems'' := None)), console = [console_warn]\<rparr>) \<and>
   (entries ''cartItems'' = Some localData \<and> localData \<noteq> [] \<and>
    JSON_parse localData = Some parsedData \<and> Array_isArray parsedData \<longrightarrow>
      hydration_effect (Storage entries) =
        Inr \<lparr>setHasMounted = True, setCartItems = Some parsedData,
             localStorage = Storage entries, console = []\<rparr>) \<and>
   (entries ''cartItems'' = Some ''{not json'' \<or> entries ''cartItems'' = Some ''{}'' \<or>
    entries ''cartItems'' = Some ''null'' \<longrightarrow>
      (\<exists>h. hydration_effect (Storage entries) = Inr h \<and>
           cartItems_after h [] = Some [] \<and>
           localStorage h = Storage (entries(''cartItems'' := None))))"
proof (intro conjI impI)
  show "\<exists>h. hydration_effect (Storage entries) = Inr h \<and> setHasMounted h = True"
    by (simp add: hydration_effect_def getItem_def removeItem_def split: option.split)
next
  assume "entries ''cartItems'' = None \<or> entries ''cartItems'' = Some []"
  then show "hydration_effect (Storage entries) =
        Inr \<lparr>setHasMounted = True, setCartItems = None, localStorage = Storage entries,
             console = []\<rparr>"
    by (auto simp: hydration_effect_def getItem_def)
next
  assume "entries ''cartItems'' = Some localData \<and> localData \<noteq> [] \<and> JSON_parse localData = None"
  then show "hydration_effect (Storage entries) =
        Inr \<lparr>setHasMounted = True, setCartItems = None,
             localStorage = Storage (entries(''cartItems'' := None)), console = [console_error]\<rparr>"
    by (simp add: hydration_effect_def getItem_def removeItem_def)
next
  assume "entries ''cartItems'' = Some localData \<and> localData \<noteq> [] \<and>
    JSON_parse localData = Some parsedData \<and> Array_isArray parsedData = False"
  then show "hydration_effect (Storage entries) =
        Inr \<lparr>setHasMounted = True, setCartItems = None,
             localStorage = Storage (entries(''cartItems'' := None)), console = [console_warn]\<rparr>"
    by (simp add: hydration_effect_def getItem_def removeItem_def)
next
  assume "entries ''cartItems'' = Some localData \<and> localData \<noteq> [] \<and>
    JSON_parse localData = Some parsedData \<and> Array_isArray parsedData"
  then show "hydration_effect (Storage entries) =
        Inr \<lparr>setHasMounted = True, setCartItems = Some parsedData,
             localStorage = Storage entries, console = []\<rparr>"
    by (simp add: hydration_effect_def getItem_def)
next
  assume "entries ''cartItems'' = Some ''{not json'' \<or> entries ''cartItems'' = Some ''{}'' \<or>
    entries ''cartItems'' = Some ''null''"
  then consider (broken) "entries ''cartItems'' = Some ''{not json''"
    | (object) "entries ''cartItems'' = Some ''{}''"
    | (null) "entries ''cartItems'' = Some ''null''"
    by blast
  then show "\<exists>h. hydration_effect (Storage entries) = Inr h \<and>
           cartItems_after h [] = Some [] \<and>
           localStorage h = Storage (entries(''cartItems'' := None))"
  proof cases
    case broken
    then show ?thesis
      by (simp add: hydration_effect_def getItem_def removeItem_def parse_not_json
          cartItems_after_def)
  next
    case object
    then show ?thesis
      by (simp add: hydration_effect_def getItem_def removeItem_def parse_empty_object
          cartItems_after_def)
  next
    case null
    then show ?thesis
      by (simp add: hydration_effect_def getItem_def removeItem_def parse_null
          cartItems_after_def)
  qed
qed

theorem hydration_effect_amended_witness:
  "Map.empty ''cartItems'' = (None :: string option) \<and>
   hydration_effect (Storage Map.empty) =
     Inr \<lparr>setHasMounted = True, setCartItems = None, localStorage = Storage Map.empty,
          console = []\<rparr> \<and>
   (Map.empty(''cartItems'' \<mapsto> ''{not json'')) ''cartItems'' = Some ''{not json'' \<and>
   ''{not json'' \<noteq> [] \<and> JSON_parse ''{not json'' = None \<and>
   hydration_effect (Storage (Map.empty(''cartItems'' \<mapsto> ''{not json''))) =
     Inr \<lparr>setHasMounted = True, setCartItems = None,
          localStorage = Storage ((Map.empty(''cartItems'' \<mapsto> ''{not json''))(''cartItems'' := None)),
          console = [console_error]\<rparr> \<and>
   (Map.empty(''cartItems'' \<mapsto> ''{}'')) ''cartItems'' = Some ''{}'' \<and>
   ''{}'' \<noteq> [] \<and> JSON_parse ''{}'' = Some (JObject []) \<and> Array_isArray (JObject []) = False \<and>
   hydration_effect (Storage (Map.empty(''cartItems'' \<mapsto> ''{}''))) =
     Inr \<lparr>setHasMounted = True, setCartItems = None,
          localStorage = Storage ((Map.empty(''cartItems'' \<mapsto> ''{}''))(''cartItems'' := None)),
          console = [console_warn]\<rparr> \<and>
   (Map.empty(''cartItems'' \<mapsto> ''null'')) ''cartItems'' = Some ''null'' \<and>
   (\<exists>h. hydration_effect (Storage (Map.empty(''cartItems'' \<mapsto> ''null''))) = Inr h \<and>
        cartItems_after h [] = Some [] \<and>
        localStorage h = Storage ((Map.empty(''cartItems'' \<mapsto> ''null''))(''cartItems'' := None))) \<and>
   (Map.empty(''cartItems'' \<mapsto> ''[]'')) ''cartItems'' = Some ''[]'' \<and>
   ''[]'' \<noteq> [] \<and> JSON_parse ''[]'' = Some (JArray []) \<and> Array_isArray (JArray []) \<and>
   hydration_effect (Storage (Map.empty(''cartItems'' \<mapsto> ''[]''))) =
     Inr \<lparr>setHasMounted = True, setCartItems = Some (JArray []),
          localStorage = Storage (Map.empty(''cartItems'' \<mapsto> ''[]'')), console = []\<rparr>"
proof -
  have g: "Map.empty ''cartItems'' = (None :: string option)"
    "\<And>stored. (Map.empty(''cartItems'' \<mapsto> stored)) ''cartItems'' = Some (stored :: string)"
    by simp_all
  have n: "''{not json'' \<noteq> []" "''{}'' \<noteq> []" "''[]'' \<noteq> []"
    by simp_all
  have a: "Array_isArray (JObject []) = False" "Array_isArray (JArray [])"
    by simp_all
  have absent: "hydration_effect (Storage Map.empty) =
     Inr \<lparr>setHasMounted = True, setCartItems = None, localStorage = Storage Map.empty,
          console = []\<rparr>"
    using hydration_effect_amended [where entries = Map.empty] g(1) by blast
  have broken: "hydration_effect (Storage (Map.empty(''cartItems'' \<mapsto> ''{not json''))) =
     Inr \<lparr>setHasMounted = True, setCartItems = None,
          localStorage = Storage ((Map.empty(''cartItems'' \<mapsto> ''{not json''))(''cartItems'' := None)),
          console = [console_error]\<rparr>"
    using hydration_effect_amended [where entries = "Map.empty(''cartItems'' \<mapsto> ''{not json'')"
      and localData = "''{not json''"] g(2) [of "''{not json''"] n(1) parse_not_json
    by blast
  have object: "hydration_effect (Storage (Map.empty(''cartItems'' \<mapsto> ''{}''))) =
     Inr \<lparr>setHasMounted = True, setCartItems = None,
          localStorage = Storage ((Map.empty(''cartItems'' \<mapsto> ''{}''))(''cartItems'' := None)),
          console = [console_warn]\<rparr>"
    using hydration_effect_amended [where entries = "Map.empty(''cartItems'' \<mapsto> ''{}'')"
      and localData = "''{}''" and parsedData = "JObject []"]
      g(2) [of "''{}''"] n(2) parse_empty_object a(1)
    by blast
  have null: "\<exists>h. hydration_effect (Storage (Map.empty(''cartItems'' \<mapsto> ''null''))) = Inr h \<and>
        cartItems_after h [] = Some [] \<and>
        localStorage h = Storage ((Map.empty(''cartItems'' \<mapsto> ''null''))(''cartItems'' := None))"
    using hydration_effect_amended [where entries = "Map.empty(''cartItems'' \<mapsto> ''null'')"]
      g(2) [of "''null''"]
    by blast
  have array: "hydration_effect (Storage (Map.empty(''cartItems'' \<mapsto> ''[]''))) =
     Inr \<lparr>setHasMounted = True, setCartItems = Some (JArray []),
          localStorage = Storage (Map.empty(''cartItems'' \<mapsto> ''[]'')), console = []\<rparr>"
    using hydration_effect_amended [where entries = "Map.empty(''cartItems'' \<mapsto> ''[]'')"
      and localData = "''[]''" and parsedData = "JArray []"]
      g(2) [of "''[]''"] n(3) parse_empty_array a(2)
    by blast
  show ?thesis
    by (intro conjI g n a parse_not_json parse_empty_object parse_empty_array
        absent broken object null array)
qed

lemma map_id_set_quantity:
  "map id' (map (\<lambda>item. if P item then item\<lparr>quantity := g item\<rparr> else item) items) = map id' items"
  by (induction items) simp_all

lemma addToCart_distinct:
  assumes "distinct (map id' items)"
  shows "distinct (map id' (addToCart product qty items))"
proof (cases "id' product \<in> id' ` set items")
  case True
  have "map id' (addToCart product qty items) = map id' items"
    by (simp add: addToCart_present [OF True] map_id_set_quantity del: map_map)
  with assms show ?thesis
    by simp
next
  case False
  with assms show ?thesis
    by (simp add: addToCart_absent [OF False] newCartItem_def)
qed

lemma removeFromCart_distinct:
  "distinct (map id' items) \<Longrightarrow> distinct (map id' (removeFromCart productId items))"
  by (simp add: removeFromCart_def distinct_map_filter)

lemma updateQuantity_distinct:
  assumes "distinct (map id' items)"
  shows "distinct (map id' (updateQuantity productId qty items))"
proof (cases "qty \<le> 0")
  case True
  with assms show ?thesis
    by (simp add: updateQuantity_def removeFromCart_distinct)
next
  case False
  from False assms show ?thesis
    by (simp add: updateQuantity_def map_id_set_quantity del: map_map)
qed

text \<open>
  Claim C6 says that a reachable cart, hydration included, has at most one line item per
  product identifier. The hydration effect takes any stored array: from the text of an array
  of two line items with the identifier \<open>p1\<close> the cart has both.
\<close>
theorem one_item_per_id_counterexample:
  "(\<exists>h. hydration_effect
          (Storage (Map.empty(''cartItems'' \<mapsto>
             JSON_stringify
               (JArray [CartItem_json (newCartItem P1 1), CartItem_json (newCartItem P1 2)])))) =
        Inr h \<and>
        cartItems_after h [] = Some [newCartItem P1 1, newCartItem P1 2]) \<and>
   reachable_hydrated (\<lambda>stored. True) [newCartItem P1 1, newCartItem P1 2] \<and>
   \<not> distinct (map id' [newCartItem P1 1, newCartItem P1 2])"
proof -
  let ?dup = "[newCartItem P1 1, newCartItem P1 2]"
  let ?h = "\<lparr>setHasMounted = True, setCartItems = Some (CartItems_json ?dup),
      localStorage = Storage (Map.empty(''cartItems'' \<mapsto> JSON_stringify (CartItems_json ?dup))),
      console = []\<rparr>"
  have e: "hydration_effect
      (Storage (Map.empty(''cartItems'' \<mapsto>
         JSON_stringify
           (JArray [CartItem_json (newCartItem P1 1), CartItem_json (newCartItem P1 2)])))) =
      Inr ?h"
    using hydration_of_stored [of Map.empty ?dup]
    by (simp add: CartItems_json_def del: JSON_stringify.simps)
  have a: "cartItems_after ?h [] = Some ?dup"
    by (simp add: cartItems_after_def as_CartItems_json)
  have "reachable_hydrated (\<lambda>stored. True) []"
    by (rule h_initial)
  from this e a have r: "reachable_hydrated (\<lambda>stored. True) ?dup"
    by (rule h_hydrate) simp
  have d: "\<not> distinct (map id' ?dup)"
    by (simp add: newCartItem_def)
  from e a have "\<exists>h. hydration_effect
          (Storage (Map.empty(''cartItems'' \<mapsto>
             JSON_stringify
               (JArray [CartItem_json (newCartItem P1 1), CartItem_json (newCartItem P1 2)])))) =
        Inr h \<and>
        cartItems_after h [] = Some ?dup"
    by blast
  with r d show ?thesis
    by blast
qed

text \<open>
  Claim C6, amended. A cart reachable from the empty cart by \<open>addToCart\<close>,
  \<open>removeFromCart\<close>, \<open>updateQuantity\<close>, \<open>clearCart\<close> and by hydration from stored arrays
  that have at most one line item per product identifier has at most one line item per product
  identifier.
\<close>
theorem one_item_per_id_amended:
  "reachable_hydrated (\<lambda>stored. distinct (map id' stored)) items \<Longrightarrow> distinct (map id' items)"
proof (induction rule: reachable_hydrated.induct)
  case h_initial
  show ?case by simp
next
  case (h_add items product qty)
  then show ?case by (simp add: addToCart_distinct)
next
  case (h_remove items productId)
  then show ?case by (simp add: removeFromCart_distinct)
next
  case (h_update items productId qty)
  then show ?case by (simp add: updateQuantity_distinct)
next
  case (h_clear items)
  show ?case by (simp add: clearCart_def)
next
  case (h_hydrate items storage h items')
  then show ?case by simp
qed

theorem one_item_per_id_amended_witness:
  "reachable_hydrated (\<lambda>stored. distinct (map id' stored))
     (addToCart P1 3 (addToCart P2 1 [newCartItem P1 1])) \<and>
   distinct (map id' (addToCart P1 3 (addToCart P2 1 [newCartItem P1 1]))) \<and>
   addToCart P1 3 (addToCart P2 1 [newCartItem P1 1]) =
     [(newCartItem P1 1)\<lparr>quantity := 4\<rparr>, newCartItem P2 1]"
proof -
  let ?h = "\<lparr>setHasMounted = True, setCartItems = Some (CartItems_json [newCartItem P1 1]),
      localStorage =
        Storage (Map.empty(''cartItems'' \<mapsto> JSON_stringify (CartItems_json [newCartItem P1 1]))),
      console = []\<rparr>"
  note e = hydration_of_stored [of Map.empty "[newCartItem P1 1]"]
  have a: "cartItems_after ?h [] = Some [newCartItem P1 1]"
    by (simp add: cartItems_after_def as_CartItems_json)
  have "reachable_hydrated (\<lambda>stored. distinct (map id' stored)) []"
    by (rule h_initial)
  from this e a have "reachable_hydrated (\<lambda>stored. distinct (map id' stored)) [newCartItem P1 1]"
    by (rule h_hydrate) simp
  then have r: "reachable_hydrated (\<lambda>stored. distinct (map id' stored))
     (addToCart P1 3 (addToCart P2 1 [newCartItem P1 1]))"
    by (intro h_add)
  have e: "addToCart P1 3 (addToCart P2 1 [newCartItem P1 1]) =
     [(newCartItem P1 1)\<lparr>quantity := 4\<rparr>, newCartItem P2 1]"
    by (simp add: addToCart_def newCartItem_def P1_def P2_def)
  from r one_item_per_id_amended [OF r] e show ?thesis
    by blast
qed

end
